theory Spec2Isabelle
  imports Main "HOL-Library.Sublist" "HOL-Library.AList"
begin

section \<open>JavaScript strings\<close>

text \<open>
  A JavaScript string is modelled as a \<^typ>\<open>string\<close>: one \<^typ>\<open>char\<close> per code unit, for
  the code units 0 to 255. Files are read and written as text, so a file's content is a
  string as well.
\<close>

abbreviation LF :: char where "LF \<equiv> CHR 0x0A"
abbreviation CR :: char where "CR \<equiv> CHR 0x0D"
abbreviation backtick :: char where "backtick \<equiv> CHR 0x60"

text \<open>\<^verbatim>\<open>s.includes(pat)\<close>: \<open>pat\<close> occurs in \<open>s\<close> as a contiguous substring.\<close>

fun str_includes :: "string \<Rightarrow> string \<Rightarrow> bool" where
  "str_includes [] pat = (pat = [])"
| "str_includes (x # xs) pat = (prefix pat (x # xs) \<or> str_includes xs pat)"

lemma includes_length: "str_includes s pat \<Longrightarrow> length pat \<le> length s"
  by (induction s) (auto dest: prefix_length_le)

text \<open>\<^verbatim>\<open>s.indexOf(pat)\<close>, with \<open>None\<close> for -1.\<close>

fun indexOf :: "string \<Rightarrow> string \<Rightarrow> nat option" where
  "indexOf [] pat = (if pat = [] then Some 0 else None)"
| "indexOf (x # xs) pat =
     (if prefix pat (x # xs) then Some 0 else map_option Suc (indexOf xs pat))"

text \<open>\<^verbatim>\<open>s.lastIndexOf(c)\<close> for a single character.\<close>

fun lastIndexOf :: "string \<Rightarrow> char \<Rightarrow> nat option" where
  "lastIndexOf [] c = None"
| "lastIndexOf (x # xs) c =
     (case lastIndexOf xs c of
        Some i \<Rightarrow> Some (Suc i)
      | None \<Rightarrow> if x = c then Some 0 else None)"

text \<open>
  White space as \<^verbatim>\<open>trim\<close>, \<^verbatim>\<open>trimStart\<close> and the regular expression
  \<^verbatim>\<open>\s\<close> see it, among the code units 0 to 255: tab, line feed, vertical tab, form
  feed, carriage return, space and no-break space.
\<close>

definition is_space :: "char \<Rightarrow> bool" where
  "is_space c = (c \<in> set [CHR 0x09, LF, CHR 0x0B, CHR 0x0C, CR, CHR 0x20, CHR 0xA0])"

definition trimStart :: "string \<Rightarrow> string" where
  "trimStart s = dropWhile is_space s"

definition trimEnd :: "string \<Rightarrow> string" where
  "trimEnd s = rev (dropWhile is_space (rev s))"

definition trim :: "string \<Rightarrow> string" where
  "trim s = trimEnd (trimStart s)"

text \<open>\<^verbatim>\<open>line.match(/^\s*/)?.[0] || ''\<close>: the leading white space of a line.\<close>

definition leading_space :: "string \<Rightarrow> string" where
  "leading_space s = takeWhile is_space s"

text \<open>\<^verbatim>\<open>s.split(sep)\<close> for a single character: never the empty list.\<close>

fun split :: "char \<Rightarrow> string \<Rightarrow> string list" where
  "split sep [] = [ [] ]"
| "split sep (c # s) =
     (if c = sep then [] # split sep s
      else (case split sep s of l # ls \<Rightarrow> (c # l) # ls | [] \<Rightarrow> [ [c] ]))"

text \<open>\<^verbatim>\<open>lines.join(sep)\<close> for a single character.\<close>

fun join :: "char \<Rightarrow> string list \<Rightarrow> string" where
  "join sep [] = []"
| "join sep [l] = l"
| "join sep (l # l' # ls) = l @ sep # join sep (l' # ls)"

text \<open>\<^verbatim>\<open>text.replace(/\r\n/g, '\n')\<close>.\<close>

fun normalizeLineEndings :: "string \<Rightarrow> string" where
  "normalizeLineEndings [] = []"
| "normalizeLineEndings [c] = [c]"
| "normalizeLineEndings (c # d # s) =
     (if c = CR \<and> d = LF then LF # normalizeLineEndings s
      else c # normalizeLineEndings (d # s))"

text \<open>
  \<^verbatim>\<open>s.replace(pat, rep)\<close> with a string pattern replaces the first occurrence, and
  expands in \<open>rep\<close> the patterns \<^verbatim>\<open>$$\<close>, \<^verbatim>\<open>$&\<close>, \<^verbatim>\<open>$`\<close> and
  \<^verbatim>\<open>$'\<close> (a string pattern has no capture groups, so \<^verbatim>\<open>$1\<close> and
  \<^verbatim>\<open>$<name>\<close> stay as they are).
\<close>

fun getSubstitution :: "string \<Rightarrow> string \<Rightarrow> string \<Rightarrow> string \<Rightarrow> string" where
  "getSubstitution matched pre post (c # d # t) =
     (if c = CHR ''$'' \<and> d = CHR ''$'' then CHR ''$'' # getSubstitution matched pre post t
      else if c = CHR ''$'' \<and> d = CHR ''&'' then matched @ getSubstitution matched pre post t
      else if c = CHR ''$'' \<and> d = backtick then pre @ getSubstitution matched pre post t
      else if c = CHR ''$'' \<and> d = CHR 0x27 then post @ getSubstitution matched pre post t
      else c # getSubstitution matched pre post (d # t))"
| "getSubstitution matched pre post t = t"

definition replace :: "string \<Rightarrow> string \<Rightarrow> string \<Rightarrow> string" where
  "replace s pat rep =
     (case indexOf s pat of
        None \<Rightarrow> s
      | Some i \<Rightarrow>
          take i s
          @ getSubstitution pat (take i s) (drop (i + length pat) s) rep
          @ drop (i + length pat) s)"

section \<open>Errors\<close>

text \<open>
  Error codes of the file system, and the errors the server throws: an error of the file
  system passed on, and one constructor for each \<^verbatim>\<open>new Error(...)\<close> of the source.
\<close>

datatype errno = ENOENT | EEXIST | EISDIR | ENOTDIR | ELOOP | ENOTEMPTY | EINVAL
  | EACCES | ENOSPC | EXDEV | EIO

datatype error =
    SysError errno
  | ParentDirMissing string
  | NoExactMatch string
  | HeadAndTail

section \<open>Applying edits to a text\<close>

record edit =
  oldText :: string
  newText :: string

text \<open>
  \<^verbatim>\<open>oldLines.every((oldLine, j) => oldLine.trim() === potentialMatch[j].trim())\<close>
  for \<^verbatim>\<open>potentialMatch = contentLines.slice(i, i + oldLines.length)\<close>.
\<close>

definition isMatch :: "string list \<Rightarrow> string list \<Rightarrow> nat \<Rightarrow> bool" where
  "isMatch oldLines contentLines i =
     list_all2 (\<lambda>oldLine contentLine. trim oldLine = trim contentLine)
       oldLines (take (length oldLines) (drop i contentLines))"

text \<open>
  \<^verbatim>\<open>for (let i = 0; i <= contentLines.length - oldLines.length; i++)\<close>, left at the
  first window that matches. No window is tried when the search text has more lines than the
  content.
\<close>

definition findWindow :: "string list \<Rightarrow> string list \<Rightarrow> nat option" where
  "findWindow oldLines contentLines =
     (if length oldLines \<le> length contentLines
      then find (isMatch oldLines contentLines)
             [0 ..< Suc (length contentLines - length oldLines)]
      else None)"

text \<open>The callback of \<^verbatim>\<open>normalizedNew.split('\n').map((line, j) => ...)\<close>.\<close>

definition reindent :: "string \<Rightarrow> string list \<Rightarrow> nat \<Rightarrow> string \<Rightarrow> string" where
  "reindent originalIndent oldLines j line =
     (if j = 0 then originalIndent @ trimStart line
      else
        let oldIndent = (if j < length oldLines then leading_space (oldLines ! j) else []);
            newIndent = leading_space line
        in if oldIndent \<noteq> [] \<and> newIndent \<noteq> []
           then originalIndent
                @ replicate (nat (max 0 (int (length newIndent) - int (length oldIndent))))
                    (CHR 0x20)
                @ trimStart line
           else line)"

definition fuzzyReplace :: "string list \<Rightarrow> string list \<Rightarrow> string list \<Rightarrow> nat \<Rightarrow> string" where
  "fuzzyReplace contentLines oldLines newLines i =
     (let originalIndent = leading_space (contentLines ! i);
          newLines' = map (\<lambda>(j, line). reindent originalIndent oldLines j line)
                        (enumerate 0 newLines)
      in join LF (take i contentLines @ newLines' @ drop (i + length oldLines) contentLines))"

text \<open>One round of the loop \<^verbatim>\<open>for (const edit of edits)\<close>.\<close>

definition applyEdit :: "string \<Rightarrow> edit \<Rightarrow> error + string" where
  "applyEdit modifiedContent e =
     (let normalizedOld = normalizeLineEndings (oldText e);
          normalizedNew = normalizeLineEndings (newText e)
      in if str_includes modifiedContent normalizedOld
         then Inr (replace modifiedContent normalizedOld normalizedNew)
         else
           let oldLines = split LF normalizedOld;
               contentLines = split LF modifiedContent
           in case findWindow oldLines contentLines of
                Some i \<Rightarrow>
                  Inr (fuzzyReplace contentLines oldLines (split LF normalizedNew) i)
              | None \<Rightarrow> Inl (NoExactMatch (oldText e)))"

fun applyEdits :: "string \<Rightarrow> edit list \<Rightarrow> error + string" where
  "applyEdits modifiedContent [] = Inr modifiedContent"
| "applyEdits modifiedContent (e # es) =
     (case applyEdit modifiedContent e of
        Inl err \<Rightarrow> Inl err
      | Inr c \<Rightarrow> applyEdits c es)"

section \<open>Rendering the diff of a patch\<close>

text \<open>
  The end of \<^verbatim>\<open>applyFileEdits\<close>:
  \<^verbatim>\<open>let numBackticks = 3;
  while (diff.includes('`'.repeat(numBackticks))) { numBackticks++; }
  const formattedDiff = `${'`'.repeat(numBackticks)}diff\n${diff}${'`'.repeat(numBackticks)}\n\n`;\<close>
  The loop is the function \<open>numBackticks_loop\<close>, started at 3.
\<close>

function numBackticks_loop :: "string \<Rightarrow> nat \<Rightarrow> nat" where
  "numBackticks_loop diff n =
     (if str_includes diff (replicate n backtick) then numBackticks_loop diff (Suc n) else n)"
  by pat_completeness auto
termination
  by (relation "measure (\<lambda>(diff, n). Suc (length diff) - n)") (auto dest: includes_length)

declare numBackticks_loop.simps [simp del]

definition numBackticks :: "string \<Rightarrow> nat" where
  "numBackticks diff = numBackticks_loop diff 3"

definition formatDiff :: "string \<Rightarrow> string" where
  "formatDiff diff =
     replicate (numBackticks diff) backtick @ ''diff'' @ [LF] @ diff
       @ replicate (numBackticks diff) backtick @ [LF, LF]"

text \<open>
  The longest run of a character in a text, as the specification words it: the greatest
  number of consecutive occurrences, taken over every starting position.
\<close>

fun longest_run :: "char \<Rightarrow> string \<Rightarrow> nat" where
  "longest_run c [] = 0"
| "longest_run c (x # xs) =
     max (length (takeWhile (\<lambda>y. y = c) (x # xs))) (longest_run c xs)"

section \<open>Paths\<close>

text \<open>
  \<^verbatim>\<open>path.resolve\<close> turns a path string into an absolute, normalised one: no empty, \<^verbatim>\<open>.\<close>
  or \<^verbatim>\<open>..\<close> segment and no trailing separator. Such a path is modelled by the list of
  its segments, the root directory by the empty list; \<open>path_str\<close> is the string.
\<close>

type_synonym path = "string list"

definition path_str :: "path \<Rightarrow> string" where
  "path_str p = (if p = [] then ''/'' else concat (map (\<lambda>c. CHR ''/'' # c) p))"

fun normalizeSegments :: "path \<Rightarrow> string list \<Rightarrow> path" where
  "normalizeSegments acc [] = acc"
| "normalizeSegments acc (c # cs) =
     (if c = [] \<or> c = ''.'' then normalizeSegments acc cs
      else if c = ''..'' then normalizeSegments (butlast acc) cs
      else normalizeSegments (acc @ [c]) cs)"

text \<open>
  The environment of the server process: the home directory and the working directory, the
  value \<^verbatim>\<open>randomBytes(16).toString('hex')\<close> returns, and the two library functions
  \<^verbatim>\<open>createTwoFilesPatch\<close> (package diff) and \<^verbatim>\<open>minimatch\<close> with the option
  \<^verbatim>\<open>dot: true\<close>, which are taken as given.
\<close>

record env =
  homedir :: string
  cwd :: string
  randomHex :: string
  createTwoFilesPatch :: "string \<Rightarrow> string \<Rightarrow> string \<Rightarrow> string \<Rightarrow> string \<Rightarrow> string \<Rightarrow> string"
  minimatch :: "string \<Rightarrow> string \<Rightarrow> bool"

text \<open>\<^verbatim>\<open>path.resolve(p)\<close>: a relative path is taken from the working directory.\<close>

definition path_resolve :: "env \<Rightarrow> string \<Rightarrow> path" where
  "path_resolve E p =
     normalizeSegments []
       (split (CHR ''/'') (if prefix ''/'' p then p else cwd E @ ''/'' @ p))"

text \<open>
  \<^verbatim>\<open>expandHome\<close>. \<^verbatim>\<open>path.join(os.homedir(), filepath.slice(1))\<close> is the two strings with
  a separator between them, normalised; the normalisation is left to \<open>path_resolve\<close>, which
  every caller applies next.
\<close>

definition expandHome :: "env \<Rightarrow> string \<Rightarrow> string" where
  "expandHome E filepath =
     (if prefix ''~/'' filepath \<or> filepath = ''~''
      then homedir E @ ''/'' @ drop 1 filepath
      else filepath)"

text \<open>\<^verbatim>\<open>path.dirname\<close>, \<^verbatim>\<open>path.basename\<close> and \<^verbatim>\<open>path.join(dir, name)\<close> on normalised paths.\<close>

definition dirname :: "path \<Rightarrow> path" where
  "dirname p = butlast p"

definition basename :: "path \<Rightarrow> string" where
  "basename p = (if p = [] then [] else last p)"

definition path_join :: "path \<Rightarrow> string \<Rightarrow> path" where
  "path_join dir name = normalizeSegments dir [name]"

text \<open>
  \<^verbatim>\<open>path.relative(from, to)\<close>: one \<^verbatim>\<open>..\<close> for each segment of \<open>from\<close> below the common
  prefix, then the rest of \<open>to\<close>.
\<close>

fun commonPrefix :: "path \<Rightarrow> path \<Rightarrow> nat" where
  "commonPrefix (a # as) (b # bs) = (if a = b then Suc (commonPrefix as bs) else 0)"
| "commonPrefix as bs = 0"

definition path_relative :: "path \<Rightarrow> path \<Rightarrow> string" where
  "path_relative from to =
     (let n = commonPrefix from to
      in join (CHR ''/'') (replicate (length from - n) ''..'' @ drop n to))"

text \<open>\<^verbatim>\<open>`${filePath}.${hex}.tmp`\<close>: a suffix on the last segment.\<close>

definition tempPathOf :: "env \<Rightarrow> path \<Rightarrow> path" where
  "tempPathOf E filePath =
     (let suffix = ''.'' @ randomHex E @ ''.tmp''
      in if filePath = [] then [suffix] else butlast filePath @ [last filePath @ suffix])"

section \<open>The file system\<close>

text \<open>
  The file system is a table from normalised absolute paths to nodes: a regular file with
  its content, a directory, or a symbolic link with its target (an absolute normalised path).
  The root directory always exists. A second component says which calls fail for reasons
  the table does not show (permissions, a full disk, a rename across devices): a write is
  refused when the file is opened (\<open>WriteFile\<close>, \<open>WriteFileX\<close>) or fails once the file is open
  (\<open>WriteData\<close>). A third component says how much of its content a write that fails once
  the file is open has stored by then.
\<close>

datatype node = File string | Dir | Symlink path

datatype fsop = Realpath path | ReadFile path | WriteFile path | WriteFileX path
  | WriteData path
  | Rename path path | Unlink path | Readdir path | Stat path | Open path

record world =
  nodes :: "(path \<times> node) list"
  faults :: "fsop \<Rightarrow> errno option"
  shortWrite :: nat

definition lookup :: "(path \<times> node) list \<Rightarrow> path \<Rightarrow> node option" where
  "lookup ns p = (if p = [] then Some Dir else map_of ns p)"

text \<open>
  Resolution of a path, segment by segment: \<open>cur\<close> is the directory reached so far, a
  symbolic link restarts at its target, and at most \<open>k\<close> links are followed.
\<close>

fun walk :: "nat \<Rightarrow> (path \<times> node) list \<Rightarrow> path \<Rightarrow> path \<Rightarrow> errno + path" where
  "walk k ns cur [] = Inr cur"
| "walk k ns cur (c # rest) =
     (case lookup ns (cur @ [c]) of
        None \<Rightarrow> Inl ENOENT
      | Some (File content) \<Rightarrow> if rest = [] then Inr (cur @ [c]) else Inl ENOTDIR
      | Some Dir \<Rightarrow> walk k ns (cur @ [c]) rest
      | Some (Symlink target) \<Rightarrow>
          (case k of 0 \<Rightarrow> Inl ELOOP | Suc k' \<Rightarrow> walk k' ns [] (target @ rest)))"

abbreviation maxSymlinks :: nat where "maxSymlinks \<equiv> 40"

text \<open>\<^verbatim>\<open>fs.realpath\<close>.\<close>

definition realpath :: "world \<Rightarrow> path \<Rightarrow> errno + path" where
  "realpath w p =
     (case faults w (Realpath p) of
        Some e \<Rightarrow> Inl e
      | None \<Rightarrow> walk maxSymlinks (nodes w) [] p)"

text \<open>
  Where a call that does not follow a final symbolic link acts: the directory part is
  resolved, the last segment is kept.
\<close>

definition locate :: "(path \<times> node) list \<Rightarrow> path \<Rightarrow> errno + path" where
  "locate ns p =
     (if p = [] then Inr []
      else case walk maxSymlinks ns [] (butlast p) of
             Inl e \<Rightarrow> Inl e
           | Inr d \<Rightarrow> (case lookup ns d of
                         Some Dir \<Rightarrow> Inr (d @ [last p])
                       | _ \<Rightarrow> Inl ENOTDIR))"

text \<open>Where a write that follows symbolic links lands.\<close>

fun writeTarget :: "nat \<Rightarrow> (path \<times> node) list \<Rightarrow> path \<Rightarrow> errno + path" where
  "writeTarget k ns p =
     (case locate ns p of
        Inl e \<Rightarrow> Inl e
      | Inr q \<Rightarrow>
          (case lookup ns q of
             Some (Symlink target) \<Rightarrow>
               (case k of 0 \<Rightarrow> Inl ELOOP | Suc k' \<Rightarrow> writeTarget k' ns target)
           | Some Dir \<Rightarrow> Inl EISDIR
           | _ \<Rightarrow> Inr q))"

declare writeTarget.simps [simp del]

text \<open>\<^verbatim>\<open>fs.readFile(p, 'utf-8')\<close>.\<close>

definition readFile :: "world \<Rightarrow> path \<Rightarrow> errno + string" where
  "readFile w p =
     (case faults w (ReadFile p) of
        Some e \<Rightarrow> Inl e
      | None \<Rightarrow>
          (case walk maxSymlinks (nodes w) [] p of
             Inl e \<Rightarrow> Inl e
           | Inr q \<Rightarrow> (case lookup (nodes w) q of
                         Some (File content) \<Rightarrow> Inr content
                       | _ \<Rightarrow> Inl EISDIR)))"

text \<open>
  \<^verbatim>\<open>fs.writeFile(p, content, 'utf-8')\<close> opens the file, which creates or truncates it,
  through symbolic links, and then writes the content. When the opening is refused nothing
  changes. When the writing fails, the file exists and holds the part of the content stored
  until then. The result is the error, if there is one, and the file system after the call.
\<close>

definition writeFile :: "world \<Rightarrow> path \<Rightarrow> string \<Rightarrow> errno option \<times> world" where
  "writeFile w p content =
     (case faults w (WriteFile p) of
        Some e \<Rightarrow> (Some e, w)
      | None \<Rightarrow>
          (case writeTarget maxSymlinks (nodes w) p of
             Inl e \<Rightarrow> (Some e, w)
           | Inr q \<Rightarrow>
               (case faults w (WriteData p) of
                  Some e \<Rightarrow>
                    (Some e,
                     w\<lparr>nodes := AList.update q (File (take (shortWrite w) content)) (nodes w)\<rparr>)
                | None \<Rightarrow>
                    (None, w\<lparr>nodes := AList.update q (File content) (nodes w)\<rparr>))))"

text \<open>
  \<^verbatim>\<open>fs.writeFile(p, content, { flag: 'wx' })\<close>: exclusive creation, whose opening fails
  when the name exists, be it a file, a directory or a symbolic link.
\<close>

definition writeFileX :: "world \<Rightarrow> path \<Rightarrow> string \<Rightarrow> errno option \<times> world" where
  "writeFileX w p content =
     (case faults w (WriteFileX p) of
        Some e \<Rightarrow> (Some e, w)
      | None \<Rightarrow>
          (case locate (nodes w) p of
             Inl e \<Rightarrow> (Some e, w)
           | Inr q \<Rightarrow>
               if lookup (nodes w) q \<noteq> None then (Some EEXIST, w)
               else (case faults w (WriteData p) of
                       Some e \<Rightarrow>
                         (Some e,
                          w\<lparr>nodes := AList.update q (File (take (shortWrite w) content))
                                        (nodes w)\<rparr>)
                     | None \<Rightarrow>
                         (None, w\<lparr>nodes := AList.update q (File content) (nodes w)\<rparr>))))"

text \<open>\<^verbatim>\<open>fs.unlink\<close>. When it fails the file system is as it was.\<close>

definition unlink :: "world \<Rightarrow> path \<Rightarrow> errno + world" where
  "unlink w p =
     (case faults w (Unlink p) of
        Some e \<Rightarrow> Inl e
      | None \<Rightarrow>
          (case locate (nodes w) p of
             Inl e \<Rightarrow> Inl e
           | Inr q \<Rightarrow>
               (case lookup (nodes w) q of
                  None \<Rightarrow> Inl ENOENT
                | Some Dir \<Rightarrow> Inl EISDIR
                | _ \<Rightarrow> Inr (w\<lparr>nodes := AList.delete q (nodes w)\<rparr>))))"

text \<open>
  \<^verbatim>\<open>fs.rename\<close>: the node moves from the old name to the new one in one step, replacing
  what the new name held; a directory takes what is below it along. A final symbolic link
  is not followed, on either side.
\<close>

definition moveTree :: "(path \<times> node) list \<Rightarrow> path \<Rightarrow> path \<Rightarrow> (path \<times> node) list" where
  "moveTree ns a b =
     map (\<lambda>(q, n). if prefix a q then (b @ drop (length a) q, n) else (q, n))
       (filter (\<lambda>(q, n). \<not> prefix b q) ns)"

definition hasChildren :: "(path \<times> node) list \<Rightarrow> path \<Rightarrow> bool" where
  "hasChildren ns d = list_ex (\<lambda>(q, n). strict_prefix d q) ns"

definition rename :: "world \<Rightarrow> path \<Rightarrow> path \<Rightarrow> errno + world" where
  "rename w oldPath newPath =
     (case faults w (Rename oldPath newPath) of
        Some e \<Rightarrow> Inl e
      | None \<Rightarrow>
          (case locate (nodes w) oldPath of
             Inl e \<Rightarrow> Inl e
           | Inr a \<Rightarrow>
               (case locate (nodes w) newPath of
                  Inl e \<Rightarrow> Inl e
                | Inr b \<Rightarrow>
                    (case lookup (nodes w) a of
                       None \<Rightarrow> Inl ENOENT
                     | Some Dir \<Rightarrow>
                         if a = b then Inr w
                         else if a = [] \<or> prefix a b then Inl EINVAL
                         else (case lookup (nodes w) b of
                                 None \<Rightarrow> Inr (w\<lparr>nodes := moveTree (nodes w) a b\<rparr>)
                               | Some Dir \<Rightarrow>
                                   if b = [] \<or> hasChildren (nodes w) b then Inl ENOTEMPTY
                                   else Inr (w\<lparr>nodes := moveTree (nodes w) a b\<rparr>)
                               | _ \<Rightarrow> Inl ENOTDIR)
                     | Some n \<Rightarrow>
                         if a = b then Inr w
                         else (case lookup (nodes w) b of
                                 Some Dir \<Rightarrow> Inl EISDIR
                               | _ \<Rightarrow> Inr (w\<lparr>nodes :=
                                              AList.update b n (AList.delete a (nodes w))\<rparr>))))))"

text \<open>
  \<^verbatim>\<open>fs.readdir(p, { withFileTypes: true })\<close>: the names in a directory, each with the kind
  of the entry itself (a symbolic link is not a directory, whatever it points to). A name
  is never empty, \<^verbatim>\<open>.\<close> or \<^verbatim>\<open>..\<close>.
\<close>

datatype kind = KFile | KDir | KSymlink

fun kindOf :: "node \<Rightarrow> kind" where
  "kindOf (File content) = KFile"
| "kindOf Dir = KDir"
| "kindOf (Symlink target) = KSymlink"

definition plainSegment :: "string \<Rightarrow> bool" where
  "plainSegment c = (c \<noteq> [] \<and> c \<noteq> ''.'' \<and> c \<noteq> ''..'')"

definition children :: "(path \<times> node) list \<Rightarrow> path \<Rightarrow> (string \<times> kind) list" where
  "children ns d =
     map (\<lambda>(q, n). (last q, kindOf n))
       (filter (\<lambda>(q, n). q \<noteq> [] \<and> butlast q = d \<and> plainSegment (last q))
          (AList.clearjunk ns))"

definition readdir :: "world \<Rightarrow> path \<Rightarrow> errno + (string \<times> kind) list" where
  "readdir w p =
     (case faults w (Readdir p) of
        Some e \<Rightarrow> Inl e
      | None \<Rightarrow>
          (case walk maxSymlinks (nodes w) [] p of
             Inl e \<Rightarrow> Inl e
           | Inr d \<Rightarrow> (case lookup (nodes w) d of
                         Some Dir \<Rightarrow> Inr (children (nodes w) d)
                       | _ \<Rightarrow> Inl ENOTDIR)))"

section \<open>Path validation\<close>

text \<open>
  The server's state is the list \<^verbatim>\<open>allowedDirectories\<close>. \<^verbatim>\<open>validatePath\<close> does not read
  it. What \<^verbatim>\<open>validatePath\<close> does once the path is absolute and normalised is the function
  \<open>validateAbsolute\<close>; a caller that has such a path already (\<^verbatim>\<open>path.resolve\<close> leaves it as
  it is) is modelled with that function.
\<close>

record server =
  allowedDirectories :: "string list"

definition validateAbsolute :: "world \<Rightarrow> path \<Rightarrow> error + path" where
  "validateAbsolute w absolute =
     (case realpath w absolute of
        Inr realPath \<Rightarrow> Inr realPath
      | Inl e \<Rightarrow>
          if e = ENOENT
          then (let parentDir = dirname absolute
                in case realpath w parentDir of
                     Inr realParent \<Rightarrow> Inr (path_join realParent (basename absolute))
                   | Inl e' \<Rightarrow> Inl (ParentDirMissing (path_str parentDir)))
          else Inl (SysError e))"

definition validatePath :: "env \<Rightarrow> world \<Rightarrow> string \<Rightarrow> error + path" where
  "validatePath E w requestedPath =
     (let expandedPath = expandHome E requestedPath;
          absolute = path_resolve E expandedPath
      in validateAbsolute w absolute)"

section \<open>Patching a file\<close>

text \<open>\<^verbatim>\<open>try { await fs.unlink(tempPath); } catch { }\<close>\<close>

definition unlinkQuiet :: "world \<Rightarrow> path \<Rightarrow> world" where
  "unlinkQuiet w p = (case unlink w p of Inr w' \<Rightarrow> w' | Inl e \<Rightarrow> w)"

definition createUnifiedDiff :: "env \<Rightarrow> string \<Rightarrow> string \<Rightarrow> string \<Rightarrow> string" where
  "createUnifiedDiff E originalContent newContent filepath =
     createTwoFilesPatch E filepath filepath
       (normalizeLineEndings originalContent) (normalizeLineEndings newContent)
       ''original'' ''modified''"

text \<open>
  \<^verbatim>\<open>applyFileEdits(filePath, edits, dryRun)\<close>. The result is the value returned or the
  error thrown, together with the file system after the call.
\<close>

definition applyFileEdits ::
  "env \<Rightarrow> world \<Rightarrow> path \<Rightarrow> edit list \<Rightarrow> bool \<Rightarrow> (error + string) \<times> world" where
  "applyFileEdits E w filePath edits dryRun =
     (case readFile w filePath of
        Inl e \<Rightarrow> (Inl (SysError e), w)
      | Inr raw \<Rightarrow>
          let content = normalizeLineEndings raw
          in case applyEdits content edits of
               Inl err \<Rightarrow> (Inl err, w)
             | Inr modifiedContent \<Rightarrow>
                 let diff = createUnifiedDiff E content modifiedContent (path_str filePath);
                     formattedDiff = formatDiff diff
                 in if dryRun then (Inr formattedDiff, w)
                    else
                      let tempPath = tempPathOf E filePath
                      in case writeFile w tempPath modifiedContent of
                           (Some e, w1) \<Rightarrow> (Inl (SysError e), unlinkQuiet w1 tempPath)
                         | (None, w1) \<Rightarrow>
                             (case rename w1 tempPath filePath of
                                Inl e \<Rightarrow> (Inl (SysError e), unlinkQuiet w1 tempPath)
                              | Inr w2 \<Rightarrow> (Inr formattedDiff, w2)))"

section \<open>Reading the last and the first lines of a file\<close>

text \<open>
  \<^verbatim>\<open>fs.stat(p)\<close> gives the size, \<^verbatim>\<open>fs.open(p, 'r')\<close> a handle whose reads return the
  bytes of the content at the position asked for. Reading a directory through a handle fails.
  Sizes and positions are counted in code units here. The code counts bytes and decodes
  each chunk by itself, which is the same on content of code units below 128 (one byte
  each); the model of \<^verbatim>\<open>tailFile\<close> and \<^verbatim>\<open>headFile\<close> is for such content.
\<close>

definition statSize :: "world \<Rightarrow> path \<Rightarrow> errno + nat" where
  "statSize w p =
     (case faults w (Stat p) of
        Some e \<Rightarrow> Inl e
      | None \<Rightarrow>
          (case walk maxSymlinks (nodes w) [] p of
             Inl e \<Rightarrow> Inl e
           | Inr q \<Rightarrow> (case lookup (nodes w) q of
                         Some (File content) \<Rightarrow> Inr (length content)
                       | _ \<Rightarrow> Inr 4096)))"

definition openRead :: "world \<Rightarrow> path \<Rightarrow> errno + string" where
  "openRead w p =
     (case faults w (Open p) of
        Some e \<Rightarrow> Inl e
      | None \<Rightarrow>
          (case walk maxSymlinks (nodes w) [] p of
             Inl e \<Rightarrow> Inl e
           | Inr q \<Rightarrow> (case lookup (nodes w) q of
                         Some (File content) \<Rightarrow> Inr content
                       | _ \<Rightarrow> Inl EISDIR)))"

abbreviation CHUNK_SIZE :: nat where "CHUNK_SIZE \<equiv> 1024"

text \<open>
  The loop of \<^verbatim>\<open>tailFile\<close>,
  \<^verbatim>\<open>while (position > 0 && linesFound < numLines)\<close>. The inner loop puts the last lines of
  the chunk in front of \<open>lines\<close>, as many as are still asked for.
\<close>

function tailLoop ::
  "string \<Rightarrow> int \<Rightarrow> nat \<Rightarrow> string list \<Rightarrow> nat \<Rightarrow> string \<Rightarrow> string list" where
  "tailLoop content numLines position lines linesFound remainingText =
     (if 0 < position \<and> int linesFound < numLines
      then
        let size = min CHUNK_SIZE position;
            position' = position - size;
            readData = take size (drop position' content)
        in if readData = [] then lines
           else
             let chunkText = readData @ remainingText;
                 chunkLines = split LF (normalizeLineEndings chunkText);
                 remainingText' = (if 0 < position' then hd chunkLines else remainingText);
                 chunkLines' = (if 0 < position' then tl chunkLines else chunkLines);
                 m = min (length chunkLines') (nat (numLines - int linesFound))
             in tailLoop content numLines position'
                  (drop (length chunkLines' - m) chunkLines' @ lines) (linesFound + m)
                  remainingText'
      else lines)"
  by pat_completeness auto
termination
  by (relation "measure (\<lambda>(content, numLines, position, rest). position)") auto

declare tailLoop.simps [simp del]

definition tailFile :: "world \<Rightarrow> path \<Rightarrow> int \<Rightarrow> errno + string" where
  "tailFile w filePath numLines =
     (case statSize w filePath of
        Inl e \<Rightarrow> Inl e
      | Inr fileSize \<Rightarrow>
          if fileSize = 0 then Inr []
          else (case openRead w filePath of
                  Inl e \<Rightarrow> Inl e
                | Inr content \<Rightarrow>
                    Inr (join LF (tailLoop content numLines fileSize [] 0 []))))"

text \<open>
  The loop of \<^verbatim>\<open>headFile\<close>, \<^verbatim>\<open>while (lines.length < numLines)\<close>; it returns \<open>lines\<close>
  and \<open>buffer\<close>.
\<close>

function headLoop ::
  "string \<Rightarrow> int \<Rightarrow> string list \<Rightarrow> string \<Rightarrow> nat \<Rightarrow> string list \<times> string" where
  "headLoop content numLines lines buffer bytesRead =
     (if int (length lines) < numLines
      then
        let data = take CHUNK_SIZE (drop bytesRead content)
        in if data = [] then (lines, buffer)
           else
             let bytesRead' = bytesRead + length data;
                 buffer' = buffer @ data
             in case lastIndexOf buffer' LF of
                  Some newLineIndex \<Rightarrow>
                    let completeLines = split LF (take newLineIndex buffer');
                        buffer'' = drop (newLineIndex + 1) buffer'
                    in headLoop content numLines
                         (lines @ take (nat (numLines - int (length lines))) completeLines)
                         buffer'' bytesRead'
                | None \<Rightarrow> headLoop content numLines lines buffer' bytesRead'
      else (lines, buffer))"
  by pat_completeness auto
termination
  by (relation "measure (\<lambda>(content, numLines, lines, buffer, bytesRead).
        length content - bytesRead)") auto

declare headLoop.simps [simp del]

definition headFile :: "world \<Rightarrow> path \<Rightarrow> int \<Rightarrow> errno + string" where
  "headFile w filePath numLines =
     (case openRead w filePath of
        Inl e \<Rightarrow> Inl e
      | Inr content \<Rightarrow>
          (case headLoop content numLines [] [] 0 of
             (lines, buffer) \<Rightarrow>
               Inr (join LF (if buffer \<noteq> [] \<and> int (length lines) < numLines
                             then lines @ [buffer] else lines))))"

section \<open>The tool handlers\<close>

text \<open>
  A handler gets the arguments the schema has parsed, and the server's state, which only
  \<^verbatim>\<open>list_allowed_directories\<close> reads. Numbers are taken to be integers; an optional number
  is truthy when it is given and is not zero. The result is the text returned or the error
  thrown (which the request handler turns into an error response), and the file system after
  the call.
\<close>

definition truthy :: "int option \<Rightarrow> bool" where
  "truthy n = (case n of Some v \<Rightarrow> v \<noteq> 0 | None \<Rightarrow> False)"

definition numberOf :: "int option \<Rightarrow> int" where
  "numberOf n = (case n of Some v \<Rightarrow> v | None \<Rightarrow> 0)"

definition liftErr :: "errno + 'a \<Rightarrow> error + 'a" where
  "liftErr r = (case r of Inl e \<Rightarrow> Inl (SysError e) | Inr v \<Rightarrow> Inr v)"

definition read_file ::
  "env \<Rightarrow> server \<Rightarrow> world \<Rightarrow> string \<Rightarrow> int option \<Rightarrow> int option \<Rightarrow> error + string" where
  "read_file E S w requestedPath head tail =
     (case validatePath E w requestedPath of
        Inl err \<Rightarrow> Inl err
      | Inr validPath \<Rightarrow>
          if truthy head \<and> truthy tail then Inl HeadAndTail
          else if truthy tail then liftErr (tailFile w validPath (numberOf tail))
          else if truthy head then liftErr (headFile w validPath (numberOf head))
          else liftErr (readFile w validPath))"

definition write_file ::
  "env \<Rightarrow> server \<Rightarrow> world \<Rightarrow> string \<Rightarrow> string \<Rightarrow> (error + string) \<times> world" where
  "write_file E S w requestedPath content =
     (case validatePath E w requestedPath of
        Inl err \<Rightarrow> (Inl err, w)
      | Inr validPath \<Rightarrow>
          (case writeFileX w validPath content of
             (None, w1) \<Rightarrow> (Inr (''Successfully wrote to '' @ requestedPath), w1)
           | (Some e, w1) \<Rightarrow>
               if e = EEXIST
               then
                 let tempPath = tempPathOf E validPath
                 in case writeFile w1 tempPath content of
                      (Some renameError, w2) \<Rightarrow>
                        (Inl (SysError renameError), unlinkQuiet w2 tempPath)
                    | (None, w2) \<Rightarrow>
                        (case rename w2 tempPath validPath of
                           Inl renameError \<Rightarrow>
                             (Inl (SysError renameError), unlinkQuiet w2 tempPath)
                         | Inr w3 \<Rightarrow>
                             (Inr (''Successfully wrote to '' @ requestedPath), w3))
               else (Inl (SysError e), w1)))"

definition tiny_edit_file ::
  "env \<Rightarrow> server \<Rightarrow> world \<Rightarrow> string \<Rightarrow> edit list \<Rightarrow> bool \<Rightarrow> (error + string) \<times> world" where
  "tiny_edit_file E S w requestedPath edits dryRun =
     (case validatePath E w requestedPath of
        Inl err \<Rightarrow> (Inl err, w)
      | Inr validPath \<Rightarrow> applyFileEdits E w validPath edits dryRun)"

definition move_file ::
  "env \<Rightarrow> server \<Rightarrow> world \<Rightarrow> string \<Rightarrow> string \<Rightarrow> (error + string) \<times> world" where
  "move_file E S w source destination =
     (case validatePath E w source of
        Inl err \<Rightarrow> (Inl err, w)
      | Inr validSourcePath \<Rightarrow>
          (case validatePath E w destination of
             Inl err \<Rightarrow> (Inl err, w)
           | Inr validDestPath \<Rightarrow>
               (case rename w validSourcePath validDestPath of
                  Inl e \<Rightarrow> (Inl (SysError e), w)
                | Inr w' \<Rightarrow>
                    (Inr (''Successfully moved '' @ source @ '' to '' @ destination), w'))))"

text \<open>
  \<^verbatim>\<open>s.toLowerCase()\<close> on the code units 0 to 255: the letters A to Z and the capital
  letters of Latin-1 move up by 32.
\<close>

definition toLowerChar :: "char \<Rightarrow> char" where
  "toLowerChar c =
     (let n = (of_char c :: nat)
      in if (65 \<le> n \<and> n \<le> 90) \<or> (192 \<le> n \<and> n \<le> 222 \<and> n \<noteq> 215)
         then char_of (n + 32) else c)"

definition toLowerCase :: "string \<Rightarrow> string" where
  "toLowerCase s = map toLowerChar s"

text \<open>
  \<^verbatim>\<open>pattern.includes('*') ? pattern : `**/${pattern}/**`\<close>, and the test
  \<^verbatim>\<open>excludePatterns.some(...)\<close> on the path relative to the root of the search.
\<close>

definition globPattern :: "string \<Rightarrow> string" where
  "globPattern pattern =
     (if str_includes pattern ''*'' then pattern else ''**/'' @ pattern @ ''/**'')"

definition shouldExclude :: "env \<Rightarrow> path \<Rightarrow> string list \<Rightarrow> path \<Rightarrow> bool" where
  "shouldExclude E rootPath excludePatterns fullPath =
     list_ex (\<lambda>pattern. minimatch E (path_relative rootPath fullPath) (globPattern pattern))
       excludePatterns"

definition nameMatches :: "string \<Rightarrow> string \<Rightarrow> bool" where
  "nameMatches name pattern = str_includes (toLowerCase name) (toLowerCase pattern)"

text \<open>
  \<^verbatim>\<open>searchFiles\<close>. The inner function \<^verbatim>\<open>search\<close> calls itself on the directories it is
  shown; it ends because each of them holds fewer names below it than the one before.
\<close>

lemma walk_append_dir:
  "walk k ns cur ps = Inr d \<Longrightarrow> lookup ns d = Some Dir \<Longrightarrow> lookup ns (d @ [b]) = Some Dir
   \<Longrightarrow> walk k ns cur (ps @ [b]) = Inr (d @ [b])"
proof (induction k ns cur ps rule: walk.induct)
  case (1 k ns cur)
  then show ?case by simp
next
  case (2 k ns cur c rest)
  show ?case
  proof (cases "lookup ns (cur @ [c])")
    case None
    with 2 show ?thesis by simp
  next
    case (Some n)
    show ?thesis
    proof (cases n)
      case (File content)
      with Some 2 show ?thesis by (simp split: if_splits)
    next
      case Dir
      with Some 2 show ?thesis by simp
    next
      case (Symlink target)
      show ?thesis
      proof (cases k)
        case 0
        with Some Symlink 2 show ?thesis by simp
      next
        case (Suc k')
        with Some Symlink 2 show ?thesis by simp
      qed
    qed
  qed
qed

lemma children_entry:
  assumes "(name, kind) \<in> set (children ns d)"
  shows "\<exists>n. lookup ns (d @ [name]) = Some n \<and> kindOf n = kind \<and> plainSegment name"
proof -
  from assms obtain q n where qn: "(q, n) \<in> set (AList.clearjunk ns)" "q \<noteq> []" "butlast q = d"
    "plainSegment (last q)" "name = last q" "kind = kindOf n"
    by (auto simp: children_def)
  then have q: "q = d @ [name]" by (metis append_butlast_last_id)
  from qn(1) have "map_of (AList.clearjunk ns) q = Some n"
    by (simp add: distinct_clearjunk)
  then have "map_of ns q = Some n" by (simp add: map_of_clearjunk)
  with q qn show ?thesis by (auto simp: lookup_def)
qed

lemma children_KDir:
  assumes "(name, KDir) \<in> set (children ns d)"
  shows "lookup ns (d @ [name]) = Some Dir"
proof -
  from children_entry [OF assms] obtain n where "lookup ns (d @ [name]) = Some n" "kindOf n = KDir"
    by blast
  then show ?thesis by (cases n) simp_all
qed

definition subtreeSize :: "world \<Rightarrow> path \<Rightarrow> nat" where
  "subtreeSize w p =
     (case walk maxSymlinks (nodes w) [] p of
        Inr d \<Rightarrow> Suc (card {q \<in> dom (map_of (nodes w)). strict_prefix d q})
      | Inl e \<Rightarrow> 0)"

lemma subtreeSize_child:
  assumes "readdir w currentPath = Inr entries" and "(name, KDir) \<in> set entries"
  shows "subtreeSize w (currentPath @ [name]) < subtreeSize w currentPath"
proof -
  let ?ns = "nodes w"
  from assms(1) obtain d where d: "walk maxSymlinks ?ns [] currentPath = Inr d"
    "lookup ?ns d = Some Dir" "entries = children ?ns d"
    by (auto simp: readdir_def split: option.splits sum.splits node.splits)
  from assms(2) d(3) have c: "lookup ?ns (d @ [name]) = Some Dir"
    by (simp add: children_KDir)
  from d(1,2) c have w': "walk maxSymlinks ?ns [] (currentPath @ [name]) = Inr (d @ [name])"
    by (rule walk_append_dir)
  let ?A = "{q \<in> dom (map_of ?ns). strict_prefix (d @ [name]) q}"
  let ?B = "{q \<in> dom (map_of ?ns). strict_prefix d q}"
  have fin: "finite ?B" by (simp add: finite_dom_map_of)
  from c have "d @ [name] \<in> dom (map_of ?ns)" by (auto simp: lookup_def)
  moreover have "strict_prefix d (d @ [name])"
    by (simp add: strict_prefix_def)
  ultimately have "d @ [name] \<in> ?B" "d @ [name] \<notin> ?A" by auto
  moreover have "strict_prefix d x" if "strict_prefix (d @ [name]) x" for x
    using that by (auto simp: strict_prefix_def prefix_def)
  then have "?A \<subseteq> ?B" by auto
  moreover note this
  ultimately have "?A \<subset> ?B" by blast
  with fin have "card ?A < card ?B" by (rule psubset_card_mono)
  with d(1) w' show ?thesis by (simp add: subtreeSize_def)
qed

text \<open>
  The result is the list of paths pushed to \<^verbatim>\<open>results\<close>, or the error of the first
  \<^verbatim>\<open>readdir\<close>; an error below an entry is caught at that entry, which keeps what was
  pushed before.
\<close>

function search ::
  "env \<Rightarrow> world \<Rightarrow> path \<Rightarrow> string \<Rightarrow> string list \<Rightarrow> path \<Rightarrow> errno + path list" where
  "search E w rootPath pattern excludePatterns currentPath =
     (case readdir w currentPath of
        Inl e \<Rightarrow> Inl e
      | Inr entries \<Rightarrow>
          Inr (concat (map (\<lambda>(name, kind).
                 let fullPath = path_join currentPath name
                 in case validateAbsolute w fullPath of
                      Inl err \<Rightarrow> []
                    | Inr validPath \<Rightarrow>
                        if shouldExclude E rootPath excludePatterns fullPath then []
                        else (if nameMatches name pattern then [fullPath] else [])
                             @ (if kind = KDir
                                then (case search E w rootPath pattern excludePatterns fullPath of
                                        Inl e \<Rightarrow> []
                                      | Inr found \<Rightarrow> found)
                                else []))
               entries)))"
  by pat_completeness auto
termination
proof (relation "measure (\<lambda>(E, w, rootPath, pattern, excludePatterns, currentPath).
         subtreeSize w currentPath)", goal_cases)
  case 1
  then show ?case by simp
next
  case (2 E w rootPath pattern excludePatterns currentPath entries x name kind fullPath validPath)
  then have "(name, KDir) \<in> set entries" by simp
  moreover from 2 have "fullPath = currentPath @ [name]"
    by (auto simp: readdir_def path_join_def plainSegment_def dest!: children_entry
          split: option.splits sum.splits node.splits)
  ultimately show ?case using 2 by (simp add: subtreeSize_child)
qed

declare search.simps [simp del]

definition searchFiles ::
  "env \<Rightarrow> world \<Rightarrow> path \<Rightarrow> string \<Rightarrow> string list \<Rightarrow> errno + path list" where
  "searchFiles E w rootPath pattern excludePatterns =
     search E w rootPath pattern excludePatterns rootPath"

definition search_files ::
  "env \<Rightarrow> server \<Rightarrow> world \<Rightarrow> string \<Rightarrow> string \<Rightarrow> string list \<Rightarrow> error + string" where
  "search_files E S w requestedPath pattern excludePatterns =
     (case validatePath E w requestedPath of
        Inl err \<Rightarrow> Inl err
      | Inr validPath \<Rightarrow>
          (case searchFiles E w validPath pattern excludePatterns of
             Inl e \<Rightarrow> Inl (SysError e)
           | Inr results \<Rightarrow>
               Inr (if results \<noteq> [] then join LF (map path_str results)
                    else ''No matches found'')))"

text \<open>\<^verbatim>\<open>`${entry.isDirectory() ? "[DIR]" : "[FILE]"} ${entry.name}`\<close>\<close>

definition formatEntry :: "string \<times> kind \<Rightarrow> string" where
  "formatEntry entry =
     (if snd entry = KDir then ''[DIR]'' else ''[FILE]'') @ '' '' @ fst entry"

definition list_directory :: "env \<Rightarrow> server \<Rightarrow> world \<Rightarrow> string \<Rightarrow> error + string" where
  "list_directory E S w requestedPath =
     (case validatePath E w requestedPath of
        Inl err \<Rightarrow> Inl err
      | Inr validPath \<Rightarrow>
          (case readdir w validPath of
             Inl e \<Rightarrow> Inl (SysError e)
           | Inr entries \<Rightarrow> Inr (join LF (map formatEntry entries))))"

definition list_allowed_directories :: "server \<Rightarrow> string" where
  "list_allowed_directories S =
     ''Allowed directories:'' @ [LF] @ join LF (allowedDirectories S)"

section \<open>The specification's wording of the indentation rule\<close>

text \<open>
  The rule for a replacement line as the specification words it: the first line takes the
  original indentation; a later line takes the original indentation plus the difference in
  width between its own indentation and that of the corresponding search line, a negative
  difference removing columns.
\<close>

definition spec_reindent :: "string \<Rightarrow> string list \<Rightarrow> nat \<Rightarrow> string \<Rightarrow> string" where
  "spec_reindent originalIndent oldLines j line =
     (if j = 0 then originalIndent @ trimStart line
      else
        let oldIndent = (if j < length oldLines then leading_space (oldLines ! j) else []);
            d = int (length (leading_space line)) - int (length oldIndent)
        in (if 0 \<le> d then originalIndent @ replicate (nat d) (CHR 0x20)
            else take (nat (int (length originalIndent) + d)) originalIndent)
           @ trimStart line)"

text \<open>The lines of an edit's two texts, as \<^verbatim>\<open>applyFileEdits\<close> splits them.\<close>

definition oldLinesOf :: "edit \<Rightarrow> string list" where
  "oldLinesOf e = split LF (normalizeLineEndings (oldText e))"

definition newLinesOf :: "edit \<Rightarrow> string list" where
  "newLinesOf e = split LF (normalizeLineEndings (newText e))"

section \<open>The specification's wording of path containment and of a missing target\<close>

text \<open>
  A canonical path lies within the allowed roots when it is equal to, or a descendant of, at
  least one entry of \<^verbatim>\<open>allowedDirectories\<close>.
\<close>

definition isWithinAllowed :: "server \<Rightarrow> path \<Rightarrow> bool" where
  "isWithinAllowed S p =
     list_ex (\<lambda>dir. prefix (normalizeSegments [] (split (CHR ''/'') dir)) p)
       (allowedDirectories S)"

text \<open>
  The final segment \<open>name\<close> of a path does not exist: the directory part resolves to a
  directory without an entry of that name, or does not exist itself.
\<close>

definition finalMissing :: "world \<Rightarrow> path \<Rightarrow> string \<Rightarrow> bool" where
  "finalMissing w parent name =
     (case walk maxSymlinks (nodes w) [] parent of
        Inr d \<Rightarrow> lookup (nodes w) d = Some Dir \<and> lookup (nodes w) (d @ [name]) = None
      | Inl e \<Rightarrow> e = ENOENT)"

section \<open>The specification's wording of a failing edit and of the lines of a file\<close>

text \<open>
  An edit matches a content exactly when its search text occurs in it, and fuzzily when some
  window of content lines matches the search lines.
\<close>

definition matchesExactly :: "string \<Rightarrow> edit \<Rightarrow> bool" where
  "matchesExactly content e = str_includes content (normalizeLineEndings (oldText e))"

definition matchesFuzzily :: "string \<Rightarrow> edit \<Rightarrow> bool" where
  "matchesFuzzily content e =
     list_ex (\<lambda>i. i + length (oldLinesOf e) \<le> length (split LF content)
                  \<and> isMatch (oldLinesOf e) (split LF content) i)
       [0 ..< Suc (length (split LF content))]"

text \<open>
  The lines of a text: a line feed ends a line, and what follows the last line feed is a line
  when it is not empty.
\<close>

definition fileLines :: "string \<Rightarrow> string list" where
  "fileLines content =
     (let ls = split LF content in if last ls = [] then butlast ls else ls)"

definition lastLines :: "nat \<Rightarrow> string list \<Rightarrow> string list" where
  "lastLines n ls = drop (length ls - n) ls"

text \<open>A directory chain: the path and every prefix of it is a directory.\<close>

definition dirChain :: "(path \<times> node) list \<Rightarrow> path \<Rightarrow> bool" where
  "dirChain ns d = list_all (\<lambda>r. lookup ns r = Some Dir) (prefixes d)"

section \<open>The entries a search visits\<close>

text \<open>
  The kind under which a directory lists a name, if it does. An entry is admitted when its
  directory lists it, its path passes validation and no exclusion pattern matches its path
  relative to the root of the search. The search visits the entry \<open>dir @ names\<close> when
  every entry on the way from \<open>dir\<close> to it is admitted and all but the last are listed as
  directories.
\<close>

definition entryKind :: "world \<Rightarrow> path \<Rightarrow> string \<Rightarrow> kind option" where
  "entryKind w dir name =
     (case readdir w dir of Inl e \<Rightarrow> None | Inr entries \<Rightarrow> map_of entries name)"

definition admitted :: "env \<Rightarrow> world \<Rightarrow> path \<Rightarrow> string list \<Rightarrow> path \<Rightarrow> string \<Rightarrow> bool" where
  "admitted E w rootPath excludePatterns dir name =
     (entryKind w dir name \<noteq> None
      \<and> \<not> isl (validateAbsolute w (dir @ [name]))
      \<and> \<not> shouldExclude E rootPath excludePatterns (dir @ [name]))"

fun visited :: "env \<Rightarrow> world \<Rightarrow> path \<Rightarrow> string list \<Rightarrow> path \<Rightarrow> string list \<Rightarrow> bool" where
  "visited E w rootPath excludePatterns dir [] = False"
| "visited E w rootPath excludePatterns dir [name] =
     admitted E w rootPath excludePatterns dir name"
| "visited E w rootPath excludePatterns dir (name # rest) =
     (admitted E w rootPath excludePatterns dir name
      \<and> entryKind w dir name = Some KDir
      \<and> visited E w rootPath excludePatterns (dir @ [name]) rest)"

section \<open>An example file system\<close>

text \<open>
  The directory \<^verbatim>\<open>/ws\<close> holds a file, a symbolic link to \<^verbatim>\<open>/etc\<close>, a symbolic link to
  itself and a subdirectory; \<^verbatim>\<open>/etc\<close> holds a file. No call fails for a reason the table
  does not show. The stand-ins for the two library functions are used in examples only.
\<close>

definition noFaults :: "fsop \<Rightarrow> errno option" where
  "noFaults call = None"

definition exampleNodes :: "(path \<times> node) list" where
  "exampleNodes =
     [([''ws''], Dir),
      ([''ws'', ''a.txt''], File ''foo\<newline>bar\<newline>''),
      ([''ws'', ''link''], Symlink [''etc'']),
      ([''ws'', ''loop''], Symlink [''ws'', ''loop'']),
      ([''ws'', ''sub''], Dir),
      ([''ws'', ''sub'', ''Foo.md''], File ''x''),
      ([''etc''], Dir),
      ([''etc'', ''passwd''], File ''root:x:0:0'')]"

definition exampleWorld :: world where
  "exampleWorld = \<lparr>nodes = exampleNodes, faults = noFaults, shortWrite = 0\<rparr>"

text \<open>The same files on a full disk: a write fails after its first code unit.\<close>

definition diskFull :: "fsop \<Rightarrow> errno option" where
  "diskFull call = (case call of WriteData p \<Rightarrow> Some ENOSPC | _ \<Rightarrow> None)"

definition fullDiskWorld :: world where
  "fullDiskWorld = \<lparr>nodes = exampleNodes, faults = diskFull, shortWrite = 1\<rparr>"

definition examplePatch ::
  "string \<Rightarrow> string \<Rightarrow> string \<Rightarrow> string \<Rightarrow> string \<Rightarrow> string \<Rightarrow> string" where
  "examplePatch oldFileName newFileName oldStr newStr oldHeader newHeader =
     ''-'' @ oldStr @ ''+'' @ newStr"

definition exampleMinimatch :: "string \<Rightarrow> string \<Rightarrow> bool" where
  "exampleMinimatch p glob =
     (p = glob
      \<or> list_ex (\<lambda>segment. glob = ''**/'' @ segment @ ''/**'') (butlast (split (CHR ''/'') p)))"

definition exampleEnv :: env where
  "exampleEnv =
     \<lparr>homedir = ''/home/u'', cwd = ''/ws'', randomHex = ''00112233445566778899aabbccddeeff'',
      createTwoFilesPatch = examplePatch, minimatch = exampleMinimatch\<rparr>"

definition exampleServer :: server where
  "exampleServer = \<lparr>allowedDirectories = [''/ws'']\<rparr>"

section \<open>Properties of the rendered diff\<close>

lemma prefix_replicate_iff:
  "prefix (replicate n c) s \<longleftrightarrow> n \<le> length (takeWhile (\<lambda>y. y = c) s)"
proof (induction s arbitrary: n)
  case Nil
  then show ?case by simp
next
  case (Cons x xs)
  show ?case
  proof (cases n)
    case 0
    then show ?thesis by simp
  next
    case (Suc m)
    with Cons show ?thesis by (simp add: prefix_Cons)
  qed
qed

lemma includes_replicate_iff:
  "str_includes s (replicate n c) \<longleftrightarrow> n \<le> longest_run c s"
  by (induction s) (auto simp: prefix_replicate_iff simp del: takeWhile.simps)

lemma numBackticks_loop_eq:
  "numBackticks_loop diff n = max n (Suc (longest_run backtick diff))"
proof (induction diff n rule: numBackticks_loop.induct)
  case (1 diff n)
  show ?case
  proof (cases "str_includes diff (replicate n backtick)")
    case True
    then have "n \<le> longest_run backtick diff"
      by (simp add: includes_replicate_iff)
    with True "1.IH" show ?thesis
      by (subst numBackticks_loop.simps) (simp add: max_def)
  next
    case False
    then have "longest_run backtick diff < n"
      by (simp add: includes_replicate_iff)
    with False show ?thesis
      by (subst numBackticks_loop.simps) (simp add: max_def)
  qed
qed

text \<open>
  C9 (as the code has it). The fence of a rendered patch result is three backticks, or one
  more than the longest run of backticks in the diff text when that is longer; the diff text
  is wrapped between two such fences, and does not contain the fence.
\<close>

theorem formatDiff_fence:
  "numBackticks diff = max 3 (Suc (longest_run backtick diff))
   \<and> formatDiff diff =
       replicate (max 3 (Suc (longest_run backtick diff))) backtick @ ''diff'' @ [LF] @ diff
         @ replicate (max 3 (Suc (longest_run backtick diff))) backtick @ [LF, LF]
   \<and> \<not> str_includes diff (replicate (numBackticks diff) backtick)"
proof -
  have n: "numBackticks diff = max 3 (Suc (longest_run backtick diff))"
    by (simp add: numBackticks_def numBackticks_loop_eq)
  have "\<not> numBackticks diff \<le> longest_run backtick diff"
    unfolding n by simp
  then have "\<not> str_includes diff (replicate (numBackticks diff) backtick)"
    by (simp add: includes_replicate_iff)
  with n show ?thesis
    by (simp add: formatDiff_def)
qed

text \<open>
  C9 (as the specification states it) fails for a diff text without backticks: the longest
  run is 0, and the fence is 3 characters long, not 1.
\<close>

theorem formatDiff_fence_counterexample:
  "longest_run backtick ''-foo'' = 0
   \<and> numBackticks ''-foo'' = 3
   \<and> numBackticks ''-foo'' \<noteq> Suc (longest_run backtick ''-foo'')"
  by (simp add: numBackticks_def numBackticks_loop_eq)

section \<open>Properties of the fuzzy match\<close>

lemma findWindow_Some:
  assumes "findWindow ol cl = Some i"
  shows "i + length ol \<le> length cl \<and> isMatch ol cl i \<and> (\<forall>i'<i. \<not> isMatch ol cl i')"
proof -
  from assms have le: "length ol \<le> length cl"
    and f: "find (isMatch ol cl) [0 ..< Suc (length cl - length ol)] = Some i"
    by (auto simp: findWindow_def split: if_splits)
  from f obtain n where n: "n < Suc (length cl - length ol)"
    "isMatch ol cl ([0 ..< Suc (length cl - length ol)] ! n)"
    "i = [0 ..< Suc (length cl - length ol)] ! n"
    "\<forall>j<n. \<not> isMatch ol cl ([0 ..< Suc (length cl - length ol)] ! j)"
    by (auto simp: find_Some_iff)
  from n(1,3) have i: "i = n" by (simp add: nth_upt del: upt_Suc)
  have "\<forall>i'<i. \<not> isMatch ol cl i'"
  proof (intro allI impI)
    fix i' assume "i' < i"
    with n(4) i n(1) have "\<not> isMatch ol cl ([0 ..< Suc (length cl - length ol)] ! i')" by simp
    moreover from \<open>i' < i\<close> i n(1) have "[0 ..< Suc (length cl - length ol)] ! i' = i'"
      by (simp add: nth_upt del: upt_Suc)
    ultimately show "\<not> isMatch ol cl i'" by simp
  qed
  with n i le show ?thesis by (simp add: nth_upt del: upt_Suc)
qed

lemma findWindow_None:
  assumes "findWindow ol cl = None" "k + length ol \<le> length cl"
  shows "\<not> isMatch ol cl k"
proof -
  from assms(2) have "length ol \<le> length cl" "k \<in> set [0 ..< Suc (length cl - length ol)]"
    by auto
  with assms(1) show ?thesis
    by (auto simp: findWindow_def find_None_iff simp del: upt_Suc)
qed

lemma findWindow_exists:
  assumes "k + length ol \<le> length cl" "isMatch ol cl k"
  shows "\<exists>i\<le>k. findWindow ol cl = Some i"
proof (cases "findWindow ol cl")
  case None
  with assms findWindow_None show ?thesis by blast
next
  case (Some i)
  then have "\<forall>i'<i. \<not> isMatch ol cl i'" by (simp add: findWindow_Some)
  with assms(2) have "i \<le> k" by (meson not_le)
  with Some show ?thesis by simp
qed

lemma length_split_pos: "split c s \<noteq> []"
  by (induction s) (auto split: list.splits)

text \<open>
  C3 (as the code has it). When the search text of an edit does not occur in the content and
  some window of content lines matches it line by line, white space at both ends of each line
  left out, the replacement is applied at the earliest such window. Its first line is the
  indentation of the window's first content line followed by the first replacement line
  without its own leading white space. A later replacement line is changed only when both it
  and the search line of the same index start with white space: it then becomes the window's
  indentation, followed by as many spaces as the replacement line's indentation is longer
  than the search line's (none when it is shorter), followed by the line without its leading
  white space. Every other later replacement line is used as it is.
\<close>

theorem applyEdit_fuzzy:
  assumes "\<not> str_includes content (normalizeLineEndings (oldText e))"
    and "k + length (oldLinesOf e) \<le> length (split LF content)"
    and "isMatch (oldLinesOf e) (split LF content) k"
  shows "\<exists>i newLines'.
      i \<le> k \<and> isMatch (oldLinesOf e) (split LF content) i
      \<and> (\<forall>i'<i. \<not> isMatch (oldLinesOf e) (split LF content) i')
      \<and> applyEdit content e =
          Inr (join LF (take i (split LF content) @ newLines'
                 @ drop (i + length (oldLinesOf e)) (split LF content)))
      \<and> length newLines' = length (newLinesOf e)
      \<and> newLines' ! 0 = leading_space (split LF content ! i) @ trimStart (newLinesOf e ! 0)
      \<and> (\<forall>j. 0 < j \<and> j < length (newLinesOf e) \<longrightarrow>
            newLines' ! j =
              (if j < length (oldLinesOf e) \<and> leading_space (oldLinesOf e ! j) \<noteq> []
                  \<and> leading_space (newLinesOf e ! j) \<noteq> []
               then leading_space (split LF content ! i)
                    @ replicate (length (leading_space (newLinesOf e ! j))
                                 - length (leading_space (oldLinesOf e ! j))) (CHR 0x20)
                    @ trimStart (newLinesOf e ! j)
               else newLinesOf e ! j))"
proof -
  let ?ol = "oldLinesOf e" and ?nl = "newLinesOf e" and ?cl = "split LF content"
  from findWindow_exists [OF assms(2,3)] obtain i where i: "i \<le> k" "findWindow ?ol ?cl = Some i"
    by blast
  let ?ind = "leading_space (?cl ! i)"
  let ?nl' = "map (\<lambda>(j, line). reindent ?ind ?ol j line) (enumerate 0 ?nl)"
  have res: "applyEdit content e =
      Inr (join LF (take i ?cl @ ?nl' @ drop (i + length ?ol) ?cl))"
    using assms(1) i(2)
    by (simp add: applyEdit_def fuzzyReplace_def oldLinesOf_def newLinesOf_def Let_def)
  have pos: "0 < length ?nl"
    by (simp add: newLinesOf_def length_split_pos)
  have first: "?nl' ! 0 = ?ind @ trimStart (?nl ! 0)"
    using pos by (simp add: nth_enumerate_eq reindent_def)
  have rest: "?nl' ! j =
      (if j < length ?ol \<and> leading_space (?ol ! j) \<noteq> [] \<and> leading_space (?nl ! j) \<noteq> []
       then ?ind @ replicate (length (leading_space (?nl ! j)) - length (leading_space (?ol ! j)))
                     (CHR 0x20) @ trimStart (?nl ! j)
       else ?nl ! j)" if "0 < j" "j < length ?nl" for j
  proof -
    have "nat (max 0 (int (length (leading_space (?nl ! j))) - int (length (leading_space (?ol ! j)))))
        = length (leading_space (?nl ! j)) - length (leading_space (?ol ! j))"
      by simp
    with that show ?thesis
      by (simp add: nth_enumerate_eq reindent_def Let_def)
  qed
  from findWindow_Some [OF i(2)] i(1) res first rest show ?thesis
    by (intro exI [of _ i] exI [of _ ?nl']) simp
qed

theorem applyEdit_fuzzy_witness:
  "let content = ''  a\<newline>  b''; e = \<lparr>oldText = ''a\<newline>  b '', newText = ''a\<newline> c''\<rparr>; k = 0 in
   \<not> str_includes content (normalizeLineEndings (oldText e))
   \<and> k + length (oldLinesOf e) \<le> length (split LF content)
   \<and> isMatch (oldLinesOf e) (split LF content) k
   \<and> (\<exists>i newLines'.
      i \<le> k \<and> isMatch (oldLinesOf e) (split LF content) i
      \<and> (\<forall>i'<i. \<not> isMatch (oldLinesOf e) (split LF content) i')
      \<and> applyEdit content e =
          Inr (join LF (take i (split LF content) @ newLines'
                 @ drop (i + length (oldLinesOf e)) (split LF content)))
      \<and> length newLines' = length (newLinesOf e)
      \<and> newLines' ! 0 = leading_space (split LF content ! i) @ trimStart (newLinesOf e ! 0)
      \<and> (\<forall>j. 0 < j \<and> j < length (newLinesOf e) \<longrightarrow>
            newLines' ! j =
              (if j < length (oldLinesOf e) \<and> leading_space (oldLinesOf e ! j) \<noteq> []
                  \<and> leading_space (newLinesOf e ! j) \<noteq> []
               then leading_space (split LF content ! i)
                    @ replicate (length (leading_space (newLinesOf e ! j))
                                 - length (leading_space (oldLinesOf e ! j))) (CHR 0x20)
                    @ trimStart (newLinesOf e ! j)
               else newLinesOf e ! j)))"
proof -
  let ?e = "\<lparr>oldText = ''a\<newline>  b '', newText = ''a\<newline> c''\<rparr>"
  have h1: "\<not> str_includes ''  a\<newline>  b'' (normalizeLineEndings (oldText ?e))"
    by code_simp
  have h2: "0 + length (oldLinesOf ?e) \<le> length (split LF ''  a\<newline>  b'')"
    by code_simp
  have h3: "isMatch (oldLinesOf ?e) (split LF ''  a\<newline>  b'') 0"
    by code_simp
  show ?thesis
    unfolding Let_def using applyEdit_fuzzy [OF h1 h2 h3] h1 h2 h3 by blast
qed

text \<open>
  C3 (as the specification states it) fails on two inputs. With the content lines
  \<open>''  a''\<close>, \<open>''  b''\<close>, the search text \<open>''a''\<close>, \<open>''b''\<close> and the replacement \<open>''a''\<close>,
  \<open>''c''\<close>, the difference in indentation of the second line is 0, and the second
  line of the result is \<open>''c''\<close>, not \<open>''  c''\<close>. With a window indented by four spaces, a search
  line indented by six and a replacement line indented by two, the difference is -4 and the
  result line keeps the four spaces.
\<close>

theorem applyEdit_fuzzy_counterexample:
  "\<not> str_includes ''  a\<newline>  b'' (normalizeLineEndings ''a\<newline>b'')
   \<and> isMatch (split LF (normalizeLineEndings ''a\<newline>b'')) (split LF ''  a\<newline>  b'') 0
   \<and> applyEdit ''  a\<newline>  b'' \<lparr>oldText = ''a\<newline>b'', newText = ''a\<newline>c''\<rparr> = Inr ''  a\<newline>c''
   \<and> spec_reindent ''  '' [''a'', ''b''] 1 ''c'' = ''  c''
   \<and> applyEdit ''  a\<newline>  b'' \<lparr>oldText = ''a\<newline>b'', newText = ''a\<newline>c''\<rparr>
       \<noteq> Inr (join LF [spec_reindent ''  '' [''a'', ''b''] 0 ''a'',
                          spec_reindent ''  '' [''a'', ''b''] 1 ''c''])
   \<and> \<not> str_includes ''    a\<newline>    b'' (normalizeLineEndings ''a\<newline>      b'')
   \<and> isMatch (split LF (normalizeLineEndings ''a\<newline>      b'')) (split LF ''    a\<newline>    b'') 0
   \<and> applyEdit ''    a\<newline>    b'' \<lparr>oldText = ''a\<newline>      b'', newText = ''a\<newline>  c''\<rparr>
       = Inr ''    a\<newline>    c''
   \<and> spec_reindent ''    '' [''a'', ''      b''] 1 ''  c'' = ''c''
   \<and> applyEdit ''    a\<newline>    b'' \<lparr>oldText = ''a\<newline>      b'', newText = ''a\<newline>  c''\<rparr>
       \<noteq> Inr (join LF [spec_reindent ''    '' [''a'', ''      b''] 0 ''a'',
                          spec_reindent ''    '' [''a'', ''      b''] 1 ''  c''])"
  by code_simp

section \<open>Properties of path validation\<close>

lemma walk_append_error:
  "walk k ns cur ps = Inl e \<Longrightarrow> walk k ns cur (ps @ [b]) = Inl e"
proof (induction k ns cur ps rule: walk.induct)
  case (1 k ns cur)
  then show ?case by simp
next
  case (2 k ns cur c rest)
  show ?case
  proof (cases "lookup ns (cur @ [c])")
    case None
    with 2 show ?thesis by simp
  next
    case (Some n)
    show ?thesis
    proof (cases n)
      case (File content)
      with Some 2 show ?thesis by (simp split: if_splits)
    next
      case Dir
      with Some 2 show ?thesis by simp
    next
      case (Symlink target)
      show ?thesis
      proof (cases k)
        case 0
        with Some Symlink 2 show ?thesis by simp
      next
        case (Suc k')
        with Some Symlink 2 show ?thesis by simp
      qed
    qed
  qed
qed

lemma walk_append_missing:
  "walk k ns cur ps = Inr d \<Longrightarrow> lookup ns d = Some Dir \<Longrightarrow> lookup ns (d @ [b]) = None
   \<Longrightarrow> walk k ns cur (ps @ [b]) = Inl ENOENT"
proof (induction k ns cur ps rule: walk.induct)
  case (1 k ns cur)
  then show ?case by simp
next
  case (2 k ns cur c rest)
  show ?case
  proof (cases "lookup ns (cur @ [c])")
    case None
    with 2 show ?thesis by simp
  next
    case (Some n)
    show ?thesis
    proof (cases n)
      case (File content)
      with Some 2 show ?thesis by (simp split: if_splits)
    next
      case Dir
      with Some 2 show ?thesis by simp
    next
      case (Symlink target)
      show ?thesis
      proof (cases k)
        case 0
        with Some Symlink 2 show ?thesis by simp
      next
        case (Suc k')
        with Some Symlink 2 show ?thesis by simp
      qed
    qed
  qed
qed

lemma normalizeSegments_plain:
  "list_all plainSegment acc \<Longrightarrow> list_all plainSegment (normalizeSegments acc cs)"
proof (induction acc cs rule: normalizeSegments.induct)
  case (1 acc)
  then show ?case by simp
next
  case (2 acc c cs)
  have b: "list_all plainSegment (butlast acc)"
    using "2.prems" by (auto simp: list_all_iff dest: in_set_butlastD)
  consider "c = [] \<or> c = ''.''" | "\<not> (c = [] \<or> c = ''.'')" "c = ''..''"
    | "\<not> (c = [] \<or> c = ''.'')" "c \<noteq> ''..''"
    by blast
  then show ?case
  proof cases
    case 1
    with "2.IH"(1) "2.prems" show ?thesis by simp
  next
    case 2
    with "2.IH"(2) b show ?thesis by simp
  next
    case 3
    then have "plainSegment c" by (simp add: plainSegment_def)
    with 3 "2.IH"(3) "2.prems" show ?thesis by simp
  qed
qed

lemma path_resolve_plain: "list_all plainSegment (path_resolve E p)"
  by (simp add: path_resolve_def normalizeSegments_plain)

lemma path_join_plain: "plainSegment name \<Longrightarrow> path_join d name = d @ [name]"
  by (simp add: path_join_def plainSegment_def)

text \<open>
  C8. For a path whose final segment does not exist, \<^verbatim>\<open>validatePath\<close> resolves the parent
  directory through \<^verbatim>\<open>fs.realpath\<close> and appends the final segment again; when the parent
  cannot be resolved it fails with the error that the parent directory does not exist.
\<close>

theorem validatePath_new_file:
  assumes "path_resolve E (expandHome E requestedPath) = parent @ [name]"
    and "faults w (Realpath (parent @ [name])) = None"
    and "finalMissing w parent name"
  shows "validatePath E w requestedPath =
     (case realpath w parent of
        Inr realParent \<Rightarrow> Inr (realParent @ [name])
      | Inl e \<Rightarrow> Inl (ParentDirMissing (path_str parent)))"
proof -
  have "walk maxSymlinks (nodes w) [] (parent @ [name]) = Inl ENOENT"
  proof (cases "walk maxSymlinks (nodes w) [] parent")
    case (Inl e)
    with assms(3) have "e = ENOENT" by (simp add: finalMissing_def)
    with Inl show ?thesis by (simp only: walk_append_error)
  next
    case (Inr d)
    with assms(3) have "lookup (nodes w) d = Some Dir" "lookup (nodes w) (d @ [name]) = None"
      by (simp_all add: finalMissing_def)
    with Inr show ?thesis by (simp only: walk_append_missing)
  qed
  with assms(2) have rp: "realpath w (parent @ [name]) = Inl ENOENT"
    by (simp add: realpath_def)
  from path_resolve_plain [of E "expandHome E requestedPath"] assms(1)
  have "plainSegment name" by simp
  then have "path_join d name = d @ [name]" for d
    by (rule path_join_plain)
  with rp assms(1) show ?thesis
    by (simp add: validatePath_def validateAbsolute_def Let_def dirname_def basename_def
        split: sum.splits)
qed

theorem validatePath_new_file_witness:
  "path_resolve exampleEnv (expandHome exampleEnv ''/ws/new.txt'') = [''ws''] @ [''new.txt'']
   \<and> faults exampleWorld (Realpath ([''ws''] @ [''new.txt''])) = None
   \<and> finalMissing exampleWorld [''ws''] ''new.txt''
   \<and> validatePath exampleEnv exampleWorld ''/ws/new.txt'' = Inr [''ws'', ''new.txt'']
   \<and> path_resolve exampleEnv (expandHome exampleEnv ''nodir/x'') = [''ws'', ''nodir''] @ [''x'']
   \<and> faults exampleWorld (Realpath ([''ws'', ''nodir''] @ [''x''])) = None
   \<and> finalMissing exampleWorld [''ws'', ''nodir''] ''x''
   \<and> validatePath exampleEnv exampleWorld ''nodir/x'' = Inl (ParentDirMissing ''/ws/nodir'')"
proof -
  have a1: "path_resolve exampleEnv (expandHome exampleEnv ''/ws/new.txt'') = [''ws''] @ [''new.txt'']"
    by code_simp
  have a2: "faults exampleWorld (Realpath ([''ws''] @ [''new.txt''])) = None"
    by code_simp
  have a3: "finalMissing exampleWorld [''ws''] ''new.txt''"
    by code_simp
  have a4: "realpath exampleWorld [''ws''] = Inr [''ws'']"
    by code_simp
  have b1: "path_resolve exampleEnv (expandHome exampleEnv ''nodir/x'') = [''ws'', ''nodir''] @ [''x'']"
    by code_simp
  have b2: "faults exampleWorld (Realpath ([''ws'', ''nodir''] @ [''x''])) = None"
    by code_simp
  have b3: "finalMissing exampleWorld [''ws'', ''nodir''] ''x''"
    by code_simp
  have b4: "realpath exampleWorld [''ws'', ''nodir''] = Inl ENOENT"
    by code_simp
  have b5: "path_str [''ws'', ''nodir''] = ''/ws/nodir''"
    by code_simp
  from validatePath_new_file [OF a1 a2 a3] a4
  have a: "validatePath exampleEnv exampleWorld ''/ws/new.txt'' = Inr [''ws'', ''new.txt'']"
    by simp
  from validatePath_new_file [OF b1 b2 b3] b4 b5
  have b: "validatePath exampleEnv exampleWorld ''nodir/x'' = Inl (ParentDirMissing ''/ws/nodir'')"
    by simp
  from a1 a2 a3 a b1 b2 b3 b show ?thesis by blast
qed

text \<open>
  C1 (as the code has it). \<^verbatim>\<open>validatePath\<close> makes no containment check. Whenever the
  real path of the requested path resolves, \<^verbatim>\<open>validatePath\<close> returns it, whatever
  \<^verbatim>\<open>allowedDirectories\<close> holds, and reading, writing, patching, moving, listing and searching
  do on the requested path what their calls of the file system do on that real path. And
  when \<^verbatim>\<open>validatePath\<close> fails, the resolution of the real path has failed: the error is the
  one of the file system, or, when the path does not exist and its parent directory does not
  resolve either, the error that the parent directory does not exist.
\<close>

theorem validatePath_no_containment:
  "(realpath w (path_resolve E (expandHome E requestedPath)) = Inr q \<longrightarrow>
      validatePath E w requestedPath = Inr q
      \<and> read_file E S w requestedPath head tail =
          (if truthy head \<and> truthy tail then Inl HeadAndTail
           else if truthy tail then liftErr (tailFile w q (numberOf tail))
           else if truthy head then liftErr (headFile w q (numberOf head))
           else liftErr (readFile w q))
      \<and> write_file E S w requestedPath content =
          (case writeFileX w q content of
             (None, w1) \<Rightarrow> (Inr (''Successfully wrote to '' @ requestedPath), w1)
           | (Some e, w1) \<Rightarrow>
               if e = EEXIST
               then (case writeFile w1 (tempPathOf E q) content of
                       (Some e', w2) \<Rightarrow> (Inl (SysError e'), unlinkQuiet w2 (tempPathOf E q))
                     | (None, w2) \<Rightarrow>
                         (case rename w2 (tempPathOf E q) q of
                            Inl e' \<Rightarrow> (Inl (SysError e'), unlinkQuiet w2 (tempPathOf E q))
                          | Inr w3 \<Rightarrow> (Inr (''Successfully wrote to '' @ requestedPath), w3)))
               else (Inl (SysError e), w1))
      \<and> tiny_edit_file E S w requestedPath edits dryRun = applyFileEdits E w q edits dryRun
      \<and> list_directory E S w requestedPath =
          (case readdir w q of
             Inl e \<Rightarrow> Inl (SysError e)
           | Inr entries \<Rightarrow> Inr (join LF (map formatEntry entries)))
      \<and> search_files E S w requestedPath pattern excludePatterns =
          (case searchFiles E w q pattern excludePatterns of
             Inl e \<Rightarrow> Inl (SysError e)
           | Inr results \<Rightarrow>
               Inr (if results \<noteq> [] then join LF (map path_str results)
                    else ''No matches found''))
      \<and> (realpath w (path_resolve E (expandHome E destination)) = Inr q' \<longrightarrow>
            move_file E S w requestedPath destination =
              (case rename w q q' of
                 Inl e \<Rightarrow> (Inl (SysError e), w)
               | Inr w' \<Rightarrow>
                   (Inr (''Successfully moved '' @ requestedPath @ '' to '' @ destination), w'))))
   \<and> (validatePath E w requestedPath = Inl err \<longrightarrow>
        (\<exists>e. realpath w (path_resolve E (expandHome E requestedPath)) = Inl e
           \<and> (if e = ENOENT
               then isl (realpath w (dirname (path_resolve E (expandHome E requestedPath))))
                    \<and> err = ParentDirMissing
                             (path_str (dirname (path_resolve E (expandHome E requestedPath))))
               else err = SysError e)))"
proof (intro conjI impI)
  assume r: "realpath w (path_resolve E (expandHome E requestedPath)) = Inr q"
  then show v: "validatePath E w requestedPath = Inr q"
    by (simp add: validatePath_def validateAbsolute_def Let_def)
  from v show "read_file E S w requestedPath head tail =
          (if truthy head \<and> truthy tail then Inl HeadAndTail
           else if truthy tail then liftErr (tailFile w q (numberOf tail))
           else if truthy head then liftErr (headFile w q (numberOf head))
           else liftErr (readFile w q))"
    by (simp add: read_file_def)
  from v show "write_file E S w requestedPath content =
          (case writeFileX w q content of
             (None, w1) \<Rightarrow> (Inr (''Successfully wrote to '' @ requestedPath), w1)
           | (Some e, w1) \<Rightarrow>
               if e = EEXIST
               then (case writeFile w1 (tempPathOf E q) content of
                       (Some e', w2) \<Rightarrow> (Inl (SysError e'), unlinkQuiet w2 (tempPathOf E q))
                     | (None, w2) \<Rightarrow>
                         (case rename w2 (tempPathOf E q) q of
                            Inl e' \<Rightarrow> (Inl (SysError e'), unlinkQuiet w2 (tempPathOf E q))
                          | Inr w3 \<Rightarrow> (Inr (''Successfully wrote to '' @ requestedPath), w3)))
               else (Inl (SysError e), w1))"
    by (simp add: write_file_def Let_def split: prod.splits option.splits)
  from v show "tiny_edit_file E S w requestedPath edits dryRun
      = applyFileEdits E w q edits dryRun"
    by (simp add: tiny_edit_file_def)
  from v show "list_directory E S w requestedPath =
          (case readdir w q of
             Inl e \<Rightarrow> Inl (SysError e)
           | Inr entries \<Rightarrow> Inr (join LF (map formatEntry entries)))"
    by (simp add: list_directory_def)
  from v show "search_files E S w requestedPath pattern excludePatterns =
          (case searchFiles E w q pattern excludePatterns of
             Inl e \<Rightarrow> Inl (SysError e)
           | Inr results \<Rightarrow>
               Inr (if results \<noteq> [] then join LF (map path_str results)
                    else ''No matches found''))"
    by (simp add: search_files_def)
  assume "realpath w (path_resolve E (expandHome E destination)) = Inr q'"
  then have "validatePath E w destination = Inr q'"
    by (simp add: validatePath_def validateAbsolute_def Let_def)
  with v show "move_file E S w requestedPath destination =
              (case rename w q q' of
                 Inl e \<Rightarrow> (Inl (SysError e), w)
               | Inr w' \<Rightarrow>
                   (Inr (''Successfully moved '' @ requestedPath @ '' to '' @ destination), w'))"
    by (simp add: move_file_def)
next
  let ?abs = "path_resolve E (expandHome E requestedPath)"
  assume f: "validatePath E w requestedPath = Inl err"
  show "\<exists>e. realpath w ?abs = Inl e
           \<and> (if e = ENOENT
               then isl (realpath w (dirname ?abs))
                    \<and> err = ParentDirMissing (path_str (dirname ?abs))
               else err = SysError e)"
  proof (cases "realpath w ?abs")
    case (Inr q)
    with f show ?thesis
      by (simp add: validatePath_def validateAbsolute_def Let_def)
  next
    case (Inl e)
    show ?thesis
    proof (cases "e = ENOENT")
      case False
      with Inl f show ?thesis
        by (simp add: validatePath_def validateAbsolute_def Let_def)
    next
      case True
      show ?thesis
      proof (cases "realpath w (dirname ?abs)")
        case (Inr realParent)
        with True Inl f show ?thesis
          by (simp add: validatePath_def validateAbsolute_def Let_def)
      next
        case (Inl e')
        with True \<open>realpath w ?abs = Inl e\<close> f show ?thesis
          by (simp add: validatePath_def validateAbsolute_def Let_def)
      qed
    qed
  qed
qed

theorem validatePath_no_containment_witness:
  "realpath exampleWorld (path_resolve exampleEnv (expandHome exampleEnv ''/ws/link/passwd''))
     = Inr [''etc'', ''passwd'']
   \<and> \<not> isWithinAllowed exampleServer [''etc'', ''passwd'']
   \<and> validatePath exampleEnv exampleWorld ''/ws/link/passwd'' = Inr [''etc'', ''passwd'']
   \<and> read_file exampleEnv exampleServer exampleWorld ''/ws/link/passwd'' None None
       = Inr ''root:x:0:0''
   \<and> realpath exampleWorld (path_resolve exampleEnv (expandHome exampleEnv ''/ws/a.txt''))
     = Inr [''ws'', ''a.txt'']
   \<and> fst (move_file exampleEnv exampleServer exampleWorld ''/ws/link/passwd'' ''/ws/a.txt'')
       = Inr ''Successfully moved /ws/link/passwd to /ws/a.txt''
   \<and> realpath exampleWorld (path_resolve exampleEnv (expandHome exampleEnv ''/ws/link''))
     = Inr [''etc'']
   \<and> \<not> isWithinAllowed exampleServer [''etc'']
   \<and> validatePath exampleEnv exampleWorld ''/ws/link'' = Inr [''etc'']
   \<and> list_directory exampleEnv exampleServer exampleWorld ''/ws/link'' = Inr ''[FILE] passwd''
   \<and> search_files exampleEnv exampleServer exampleWorld ''/ws/link'' ''pass'' []
       = Inr ''/etc/passwd''
   \<and> validatePath exampleEnv exampleWorld ''/ws/loop'' = Inl (SysError ELOOP)
   \<and> realpath exampleWorld (path_resolve exampleEnv (expandHome exampleEnv ''/ws/loop''))
       = Inl ELOOP"
proof -
  note T = validatePath_no_containment [where E = exampleEnv and w = exampleWorld
             and S = exampleServer]
  have f1: "realpath exampleWorld (path_resolve exampleEnv (expandHome exampleEnv ''/ws/link/passwd''))
     = Inr [''etc'', ''passwd'']"
    by code_simp
  have n1: "\<not> isWithinAllowed exampleServer [''etc'', ''passwd'']"
    by code_simp
  have rf: "readFile exampleWorld [''etc'', ''passwd''] = Inr ''root:x:0:0''"
    by code_simp
  have f2: "realpath exampleWorld (path_resolve exampleEnv (expandHome exampleEnv ''/ws/a.txt''))
     = Inr [''ws'', ''a.txt'']"
    by code_simp
  have rn: "fst (case rename exampleWorld [''etc'', ''passwd''] [''ws'', ''a.txt''] of
                 Inl e \<Rightarrow> (Inl (SysError e), exampleWorld)
               | Inr w' \<Rightarrow>
                   (Inr (''Successfully moved '' @ ''/ws/link/passwd'' @ '' to '' @ ''/ws/a.txt''), w'))
      = Inr ''Successfully moved /ws/link/passwd to /ws/a.txt''"
    by code_simp
  have f3: "realpath exampleWorld (path_resolve exampleEnv (expandHome exampleEnv ''/ws/link''))
     = Inr [''etc'']"
    by code_simp
  have n3: "\<not> isWithinAllowed exampleServer [''etc'']"
    by code_simp
  have rd: "(case readdir exampleWorld [''etc''] of
             Inl e \<Rightarrow> Inl (SysError e)
           | Inr entries \<Rightarrow> Inr (join LF (map formatEntry entries))) = Inr ''[FILE] passwd''"
    by code_simp
  have sf: "(case searchFiles exampleEnv exampleWorld [''etc''] ''pass'' [] of
             Inl e \<Rightarrow> Inl (SysError e)
           | Inr results \<Rightarrow>
               Inr (if results \<noteq> [] then join LF (map path_str results)
                    else ''No matches found'')) = Inr ''/etc/passwd''"
    by code_simp
  have v4: "validatePath exampleEnv exampleWorld ''/ws/loop'' = Inl (SysError ELOOP)"
    by code_simp
  from T [where requestedPath = "''/ws/link/passwd''" and q = "[''etc'', ''passwd'']"
            and head = None and tail = None and destination = "''/ws/a.txt''"
            and q' = "[''ws'', ''a.txt'']"] f1 f2 rf rn
  have a: "validatePath exampleEnv exampleWorld ''/ws/link/passwd'' = Inr [''etc'', ''passwd'']"
    "read_file exampleEnv exampleServer exampleWorld ''/ws/link/passwd'' None None
       = Inr ''root:x:0:0''"
    "fst (move_file exampleEnv exampleServer exampleWorld ''/ws/link/passwd'' ''/ws/a.txt'')
       = Inr ''Successfully moved /ws/link/passwd to /ws/a.txt''"
    by (simp_all add: truthy_def liftErr_def)
  from T [where requestedPath = "''/ws/link''" and q = "[''etc'']" and pattern = "''pass''"
            and excludePatterns = "[]"] f3 rd sf
  have b: "validatePath exampleEnv exampleWorld ''/ws/link'' = Inr [''etc'']"
    "list_directory exampleEnv exampleServer exampleWorld ''/ws/link'' = Inr ''[FILE] passwd''"
    "search_files exampleEnv exampleServer exampleWorld ''/ws/link'' ''pass'' []
       = Inr ''/etc/passwd''"
    by simp_all
  from T [where requestedPath = "''/ws/loop''" and err = "SysError ELOOP"] v4
  have "\<exists>e. realpath exampleWorld (path_resolve exampleEnv (expandHome exampleEnv ''/ws/loop''))
            = Inl e
          \<and> (if e = ENOENT
              then isl (realpath exampleWorld
                         (dirname (path_resolve exampleEnv (expandHome exampleEnv ''/ws/loop''))))
                   \<and> SysError ELOOP = ParentDirMissing
                        (path_str (dirname (path_resolve exampleEnv
                           (expandHome exampleEnv ''/ws/loop''))))
              else SysError ELOOP = SysError e)"
    by blast
  then have c: "realpath exampleWorld (path_resolve exampleEnv (expandHome exampleEnv ''/ws/loop''))
       = Inl ELOOP"
    by (auto split: if_splits)
  from f1 n1 a f2 f3 n3 b v4 c show ?thesis by blast
qed

text \<open>
  C1 (as the specification states it) fails: with the allowed root \<^verbatim>\<open>/ws\<close> and the link
  \<^verbatim>\<open>/ws/link\<close> to \<^verbatim>\<open>/etc\<close>, reading \<^verbatim>\<open>/ws/link/passwd\<close> returns the content of
  \<^verbatim>\<open>/etc/passwd\<close>.
\<close>

theorem read_file_outside_roots_counterexample:
  "allowedDirectories exampleServer = [''/ws'']
   \<and> lookup (nodes exampleWorld) [''ws'', ''link''] = Some (Symlink [''etc''])
   \<and> realpath exampleWorld (path_resolve exampleEnv (expandHome exampleEnv ''/ws/link/passwd''))
       = Inr [''etc'', ''passwd'']
   \<and> \<not> isWithinAllowed exampleServer [''etc'', ''passwd'']
   \<and> read_file exampleEnv exampleServer exampleWorld ''/ws/link/passwd'' None None
       = Inr ''root:x:0:0''"
  by code_simp

section \<open>Properties of the read handler\<close>

text \<open>
  C7 (as the code has it). A read request with a head and a tail that are both non-zero
  fails with the error of validation when \<^verbatim>\<open>validatePath\<close> fails, and with the error that
  head and tail cannot both be given otherwise; the file itself is not read.
\<close>

theorem read_file_head_and_tail:
  assumes "h \<noteq> 0" and "t \<noteq> 0"
  shows "read_file E S w requestedPath (Some h) (Some t) =
     (case validatePath E w requestedPath of
        Inl err \<Rightarrow> Inl err
      | Inr validPath \<Rightarrow> Inl HeadAndTail)"
  using assms by (simp add: read_file_def truthy_def split: sum.splits)

theorem read_file_head_and_tail_witness:
  "(1::int) \<noteq> 0 \<and> (2::int) \<noteq> 0
   \<and> read_file exampleEnv exampleServer exampleWorld ''/ws/a.txt'' (Some 1) (Some 2)
       = Inl HeadAndTail"
proof -
  have h: "(1::int) \<noteq> 0" and t: "(2::int) \<noteq> 0" by simp_all
  have v: "validatePath exampleEnv exampleWorld ''/ws/a.txt'' = Inr [''ws'', ''a.txt'']"
    by code_simp
  from read_file_head_and_tail [OF h t, of exampleEnv exampleServer exampleWorld "''/ws/a.txt''"] v
  show ?thesis by simp
qed

text \<open>
  C7 (as the specification states it) fails: the path is validated, through the file system,
  before the two arguments are compared, so a request with both arguments for a path whose
  parent directory is missing fails with that error instead; and a head of 0 counts as not
  given.
\<close>

theorem read_file_head_and_tail_counterexample:
  "read_file exampleEnv exampleServer exampleWorld ''/ws/nodir/a.txt'' (Some 1) (Some 1)
     = Inl (ParentDirMissing ''/ws/nodir'')
   \<and> read_file exampleEnv exampleServer exampleWorld ''/ws/nodir/a.txt'' (Some 1) (Some 1)
     \<noteq> Inl HeadAndTail
   \<and> read_file exampleEnv exampleServer exampleWorld ''/ws/a.txt'' (Some 0) (Some 1) = Inr []"
  by code_simp

section \<open>Properties of patching a file\<close>

lemma applyEdit_fails:
  assumes "\<not> str_includes content (normalizeLineEndings (oldText e))"
    and "\<And>i. i + length (oldLinesOf e) \<le> length (split LF content)
           \<Longrightarrow> \<not> isMatch (oldLinesOf e) (split LF content) i"
  shows "applyEdit content e = Inl (NoExactMatch (oldText e))"
proof -
  have "findWindow (oldLinesOf e) (split LF content) = None"
  proof (cases "findWindow (oldLinesOf e) (split LF content)")
    case None
    then show ?thesis .
  next
    case (Some i)
    from findWindow_Some [OF this] assms(2) show ?thesis by blast
  qed
  with assms(1) show ?thesis
    by (simp add: applyEdit_def oldLinesOf_def Let_def)
qed

lemma applyEdits_append:
  "applyEdits c (es @ es') =
     (case applyEdits c es of Inl err \<Rightarrow> Inl err | Inr c' \<Rightarrow> applyEdits c' es')"
  by (induction es arbitrary: c) (auto split: sum.splits)

lemma applyEdits_fails_at:
  assumes "k < length edits"
    and "applyEdits c (take k edits) = Inr c'"
    and "applyEdit c' (edits ! k) = Inl err"
  shows "applyEdits c edits = Inl err"
proof -
  have "edits = take k edits @ (edits ! k) # drop (Suc k) edits"
    using assms(1) by (simp add: id_take_nth_drop)
  then have "applyEdits c edits = applyEdits c (take k edits @ (edits ! k) # drop (Suc k) edits)"
    by simp
  also have "\<dots> = Inl err"
    using assms(2,3) by (simp add: applyEdits_append del: append_take_drop_id)
  finally show ?thesis .
qed

section \<open>Properties of the file system\<close>

lemma dirChain_Nil: "dirChain ns []"
  by (simp add: dirChain_def lookup_def)

lemma dirChain_snoc: "dirChain ns (d @ [c]) \<longleftrightarrow> dirChain ns d \<and> lookup ns (d @ [c]) = Some Dir"
  by (simp add: dirChain_def)

lemma dirChain_butlast: "dirChain ns d \<Longrightarrow> dirChain ns (butlast d)"
  by (cases d rule: rev_cases) (simp_all add: dirChain_Nil dirChain_snoc)

lemma dirChain_self: "dirChain ns d \<Longrightarrow> lookup ns d = Some Dir"
  by (cases d rule: rev_cases) (simp_all add: lookup_def dirChain_snoc)

lemma walk_canonical:
  "walk k ns cur ps = Inr q \<Longrightarrow> dirChain ns cur
   \<Longrightarrow> dirChain ns (butlast q) \<and> (\<exists>n. lookup ns q = Some n \<and> (\<forall>t. n \<noteq> Symlink t))"
proof (induction k ns cur ps rule: walk.induct)
  case (1 k ns cur)
  then show ?case by (auto simp: dirChain_butlast dirChain_self)
next
  case (2 k ns cur c rest)
  show ?case
  proof (cases "lookup ns (cur @ [c])")
    case None
    with 2 show ?thesis by simp
  next
    case (Some n)
    show ?thesis
    proof (cases n)
      case (File content)
      with Some 2 show ?thesis by (auto split: if_splits)
    next
      case Dir
      with Some 2 show ?thesis by (simp add: dirChain_snoc)
    next
      case (Symlink target)
      show ?thesis
      proof (cases k)
        case 0
        with Some Symlink 2 show ?thesis by simp
      next
        case (Suc k')
        with Some Symlink 2 show ?thesis by (simp add: dirChain_Nil)
      qed
    qed
  qed
qed

lemma walk_dirChain: "dirChain ns (cur @ ps) \<Longrightarrow> walk k ns cur ps = Inr (cur @ ps)"
proof (induction ps arbitrary: cur)
  case Nil
  then show ?case by simp
next
  case (Cons c rest)
  have "prefix (cur @ [c]) (cur @ c # rest)" by simp
  then have "cur @ [c] \<in> set (prefixes (cur @ c # rest))"
    by (simp only: in_set_prefixes)
  with Cons.prems have "lookup ns (cur @ [c]) = Some Dir"
    by (auto simp: dirChain_def list_all_iff)
  moreover from Cons.prems have "dirChain ns ((cur @ [c]) @ rest)" by simp
  ultimately show ?case using Cons.IH [of "cur @ [c]"] by simp
qed

lemma locate_dirChain: "dirChain ns (butlast q) \<Longrightarrow> locate ns q = Inr q"
proof (cases "q = []")
  case True
  then show ?thesis by (simp add: locate_def)
next
  case False
  assume d: "dirChain ns (butlast q)"
  then have "walk maxSymlinks ns [] (butlast q) = Inr (butlast q)"
    using walk_dirChain [of ns "[]" "butlast q"] by simp
  with False d show ?thesis
    by (simp add: locate_def dirChain_self)
qed

lemma dirChain_update:
  assumes "dirChain ns d" and "lookup ns t \<noteq> Some Dir"
  shows "dirChain (AList.update t n ns) d"
proof -
  have "lookup (AList.update t n ns) r = Some Dir" if "lookup ns r = Some Dir" for r
  proof -
    from that assms(2) have "r \<noteq> t" by auto
    with that show ?thesis by (auto simp: lookup_def update_conv' split: if_splits)
  qed
  with assms(1) show ?thesis by (auto simp: dirChain_def list_all_iff)
qed

lemma dirChain_delete:
  assumes "dirChain ns d" and "lookup ns t \<noteq> Some Dir"
  shows "dirChain (AList.delete t ns) d"
proof -
  have "lookup (AList.delete t ns) r = Some Dir" if "lookup ns r = Some Dir" for r
  proof -
    from that assms(2) have "r \<noteq> t" by auto
    with that show ?thesis by (auto simp: lookup_def delete_conv' split: if_splits)
  qed
  with assms(1) show ?thesis by (auto simp: dirChain_def list_all_iff)
qed

lemma realpath_canonical:
  assumes "realpath w p = Inr q"
  shows "dirChain (nodes w) (butlast q) \<and> locate (nodes w) q = Inr q
         \<and> (\<exists>n. lookup (nodes w) q = Some n \<and> (\<forall>t. n \<noteq> Symlink t))"
proof -
  from assms have "walk maxSymlinks (nodes w) [] p = Inr q"
    by (simp add: realpath_def split: option.splits)
  from walk_canonical [OF this dirChain_Nil] show ?thesis
    by (simp add: locate_dirChain)
qed

section \<open>Properties of writing and moving\<close>

lemma tempPathOf_props:
  "butlast (tempPathOf E p) = butlast p \<and> tempPathOf E p \<noteq> p \<and> tempPathOf E p \<noteq> []"
proof (cases "p = []")
  case True
  then show ?thesis by (simp add: tempPathOf_def Let_def)
next
  case False
  let ?t = "butlast p @ [last p @ ''.'' @ randomHex E @ ''.tmp'']"
  have "last ?t \<noteq> last p" by simp
  then have "?t \<noteq> p" by metis
  with False show ?thesis by (simp add: tempPathOf_def Let_def)
qed

lemma validatePath_realpath:
  "realpath w (path_resolve E (expandHome E requestedPath)) = Inr q
   \<Longrightarrow> validatePath E w requestedPath = Inr q"
  by (simp add: validatePath_def validateAbsolute_def Let_def)

lemma writeFile_fresh:
  assumes "dirChain (nodes w) (butlast p)" and "lookup (nodes w) p = None"
  shows "writeFile w p content =
     (case faults w (WriteFile p) of
        Some e \<Rightarrow> (Some e, w)
      | None \<Rightarrow>
          (case faults w (WriteData p) of
             Some e \<Rightarrow>
               (Some e, w\<lparr>nodes := AList.update p (File (take (shortWrite w) content)) (nodes w)\<rparr>)
           | None \<Rightarrow> (None, w\<lparr>nodes := AList.update p (File content) (nodes w)\<rparr>)))"
proof -
  from assms(1) have "locate (nodes w) p = Inr p" by (rule locate_dirChain)
  with assms(2) have "writeTarget maxSymlinks (nodes w) p = Inr p"
    by (subst writeTarget.simps) simp
  then show ?thesis by (simp add: writeFile_def split: option.splits)
qed

lemma rename_file:
  assumes "dirChain (nodes w) (butlast a)" and "dirChain (nodes w) (butlast b)"
    and "lookup (nodes w) a = Some (File c)" and "a \<noteq> b"
  shows "rename w a b =
     (case faults w (Rename a b) of
        Some e \<Rightarrow> Inl e
      | None \<Rightarrow>
          if lookup (nodes w) b = Some Dir then Inl EISDIR
          else Inr (w\<lparr>nodes := AList.update b (File c) (AList.delete a (nodes w))\<rparr>))"
proof -
  from assms(1,2) have "locate (nodes w) a = Inr a" "locate (nodes w) b = Inr b"
    by (simp_all add: locate_dirChain)
  with assms(3,4) show ?thesis
    by (simp add: rename_def split: option.splits node.splits)
qed

lemma unlinkQuiet_lookup:
  assumes "lookup (nodes w) q = Some n" and "q \<noteq> p" and "dirChain (nodes w) (butlast p)"
  shows "lookup (nodes (unlinkQuiet w p)) q = Some n"
proof -
  from assms(3) have "locate (nodes w) p = Inr p" by (rule locate_dirChain)
  with assms(1,2) show ?thesis
    by (auto simp: unlinkQuiet_def unlink_def lookup_def delete_conv'
        split: sum.splits option.splits node.splits if_splits)
qed

lemma unlinkQuiet_missing:
  assumes "dirChain (nodes w) (butlast p)" and "lookup (nodes w) p = None"
  shows "unlinkQuiet w p = w"
proof -
  from assms(1) have "locate (nodes w) p = Inr p" by (rule locate_dirChain)
  with assms(2) show ?thesis
    by (simp add: unlinkQuiet_def unlink_def split: option.splits)
qed

lemma unlinkQuiet_file:
  assumes "dirChain (nodes w) (butlast p)" and "lookup (nodes w) p = Some (File c)"
  shows "case faults w (Unlink p) of
           Some e \<Rightarrow> unlinkQuiet w p = w
         | None \<Rightarrow> lookup (nodes (unlinkQuiet w p)) p = None"
proof -
  from assms(1) have "locate (nodes w) p = Inr p" by (rule locate_dirChain)
  moreover from assms(2) have "p \<noteq> []" by (auto simp: lookup_def)
  ultimately show ?thesis
    using assms(2)
    by (simp add: unlinkQuiet_def unlink_def lookup_def delete_conv' split: option.splits)
qed

text \<open>
  C5. When the target of \<^verbatim>\<open>write_file\<close> exists (its real path resolves) and the name of
  the temporary file is not taken, the content is never written in place. The exclusive
  creation fails and the content goes to the sibling temporary file, whose name is the
  target's name with a random suffix; after that write, failed or not, the target still holds
  what it held. A successful rename then leaves the new content under the target and nothing
  under the temporary name. When the write of the temporary file fails, be it before the file
  is created or after a part of the content is stored in it, and when the rename fails, the
  deletion of the temporary file is attempted: the file system of the result is the one that
  \<^verbatim>\<open>unlink\<close> leaves, in which the temporary file is gone unless the deletion itself is
  refused. Whatever the outcome of the deletion, the error of the failed step is the result,
  and the target holds what it held.
\<close>

theorem write_file_existing:
  assumes rp: "realpath w (path_resolve E (expandHome E requestedPath)) = Inr validPath"
    and nf: "faults w (WriteFileX validPath) = None"
    and fresh: "lookup (nodes w) (tempPathOf E validPath) = None"
  shows "dirname (tempPathOf E validPath) = dirname validPath
     \<and> basename (tempPathOf E validPath) = basename validPath @ ''.'' @ randomHex E @ ''.tmp''
     \<and> (\<exists>old. lookup (nodes w) validPath = Some old \<and>
     (case writeFile w (tempPathOf E validPath) content of
        (Some e, w1) \<Rightarrow>
          write_file E S w requestedPath content
            = (Inl (SysError e), unlinkQuiet w1 (tempPathOf E validPath))
          \<and> (case faults w (WriteFile (tempPathOf E validPath)) of
               Some e' \<Rightarrow> w1 = w \<and> unlinkQuiet w1 (tempPathOf E validPath) = w
             | None \<Rightarrow>
                 lookup (nodes w1) (tempPathOf E validPath)
                   = Some (File (take (shortWrite w) content))
                 \<and> (case faults w (Unlink (tempPathOf E validPath)) of
                      Some e' \<Rightarrow> unlinkQuiet w1 (tempPathOf E validPath) = w1
                    | None \<Rightarrow>
                        lookup (nodes (unlinkQuiet w1 (tempPathOf E validPath)))
                          (tempPathOf E validPath) = None))
          \<and> lookup (nodes w1) validPath = Some old
          \<and> lookup (nodes (unlinkQuiet w1 (tempPathOf E validPath))) validPath = Some old
      | (None, w1) \<Rightarrow>
          lookup (nodes w1) validPath = Some old
          \<and> lookup (nodes w1) (tempPathOf E validPath) = Some (File content)
          \<and> (case rename w1 (tempPathOf E validPath) validPath of
               Inr w2 \<Rightarrow>
                 write_file E S w requestedPath content
                   = (Inr (''Successfully wrote to '' @ requestedPath), w2)
                 \<and> lookup (nodes w2) validPath = Some (File content)
                 \<and> lookup (nodes w2) (tempPathOf E validPath) = None
             | Inl e \<Rightarrow>
                 write_file E S w requestedPath content
                   = (Inl (SysError e), unlinkQuiet w1 (tempPathOf E validPath))
                 \<and> (case faults w (Unlink (tempPathOf E validPath)) of
                      Some e' \<Rightarrow> unlinkQuiet w1 (tempPathOf E validPath) = w1
                    | None \<Rightarrow>
                        lookup (nodes (unlinkQuiet w1 (tempPathOf E validPath)))
                          (tempPathOf E validPath) = None)
                 \<and> lookup (nodes (unlinkQuiet w1 (tempPathOf E validPath))) validPath
                     = Some old)))"
proof -
  let ?t = "tempPathOf E validPath"
  from realpath_canonical [OF rp] obtain old where
    dc: "dirChain (nodes w) (butlast validPath)" and
    loc: "locate (nodes w) validPath = Inr validPath" and
    old: "lookup (nodes w) validPath = Some old"
    by blast
  have tb: "butlast ?t = butlast validPath" and tne: "?t \<noteq> validPath" and tn: "?t \<noteq> []"
    using tempPathOf_props [of E validPath] by simp_all
  from dc tb have dct: "dirChain (nodes w) (butlast ?t)" by simp
  have vp: "validatePath E w requestedPath = Inr validPath"
    using rp by (rule validatePath_realpath)
  have wx: "writeFileX w validPath content = (Some EEXIST, w)"
    using nf loc old by (simp add: writeFileX_def)
  have wf: "writeFile w ?t content =
     (case faults w (WriteFile ?t) of
        Some e \<Rightarrow> (Some e, w)
      | None \<Rightarrow>
          (case faults w (WriteData ?t) of
             Some e \<Rightarrow>
               (Some e, w\<lparr>nodes := AList.update ?t (File (take (shortWrite w) content)) (nodes w)\<rparr>)
           | None \<Rightarrow> (None, w\<lparr>nodes := AList.update ?t (File content) (nodes w)\<rparr>)))"
    using dct fresh by (rule writeFile_fresh)
  from fresh have nd: "lookup (nodes w) ?t \<noteq> Some Dir" by simp
  have stored: "lookup (nodes (w\<lparr>nodes := AList.update ?t (File c) (nodes w)\<rparr>)) validPath = Some old
      \<and> lookup (nodes (w\<lparr>nodes := AList.update ?t (File c) (nodes w)\<rparr>)) ?t = Some (File c)
      \<and> dirChain (nodes (w\<lparr>nodes := AList.update ?t (File c) (nodes w)\<rparr>)) (butlast validPath)
      \<and> dirChain (nodes (w\<lparr>nodes := AList.update ?t (File c) (nodes w)\<rparr>)) (butlast ?t)" for c
  proof -
    have "lookup (nodes (w\<lparr>nodes := AList.update ?t (File c) (nodes w)\<rparr>)) validPath = Some old"
      using old tne by (auto simp: lookup_def update_conv' split: if_splits)
    moreover have "lookup (nodes (w\<lparr>nodes := AList.update ?t (File c) (nodes w)\<rparr>)) ?t
        = Some (File c)"
      using tn by (simp add: lookup_def update_conv')
    moreover have "dirChain (nodes (w\<lparr>nodes := AList.update ?t (File c) (nodes w)\<rparr>))
        (butlast validPath)"
      using dirChain_update [OF dc nd] by simp
    ultimately show ?thesis using tb by simp
  qed
  have cleanup: "(case faults w (Unlink ?t) of
                    Some e' \<Rightarrow> unlinkQuiet w1 ?t = w1
                  | None \<Rightarrow> lookup (nodes (unlinkQuiet w1 ?t)) ?t = None)
                 \<and> lookup (nodes (unlinkQuiet w1 ?t)) validPath = Some old"
    if "w1 = w\<lparr>nodes := AList.update ?t (File c) (nodes w)\<rparr>" for w1 c
  proof -
    from stored [of c] that have
      s: "lookup (nodes w1) validPath = Some old" "lookup (nodes w1) ?t = Some (File c)"
         "dirChain (nodes w1) (butlast ?t)"
      by simp_all
    from that have "faults w1 = faults w" by simp
    with unlinkQuiet_file [OF s(3) s(2)] unlinkQuiet_lookup [OF s(1) tne [symmetric] s(3)]
    show ?thesis by simp
  qed
  have main: "case writeFile w ?t content of
        (Some e, w1) \<Rightarrow>
          write_file E S w requestedPath content = (Inl (SysError e), unlinkQuiet w1 ?t)
          \<and> (case faults w (WriteFile ?t) of
               Some e' \<Rightarrow> w1 = w \<and> unlinkQuiet w1 ?t = w
             | None \<Rightarrow>
                 lookup (nodes w1) ?t = Some (File (take (shortWrite w) content))
                 \<and> (case faults w (Unlink ?t) of
                      Some e' \<Rightarrow> unlinkQuiet w1 ?t = w1
                    | None \<Rightarrow> lookup (nodes (unlinkQuiet w1 ?t)) ?t = None))
          \<and> lookup (nodes w1) validPath = Some old
          \<and> lookup (nodes (unlinkQuiet w1 ?t)) validPath = Some old
      | (None, w1) \<Rightarrow>
          lookup (nodes w1) validPath = Some old
          \<and> lookup (nodes w1) ?t = Some (File content)
          \<and> (case rename w1 ?t validPath of
               Inr w2 \<Rightarrow>
                 write_file E S w requestedPath content
                   = (Inr (''Successfully wrote to '' @ requestedPath), w2)
                 \<and> lookup (nodes w2) validPath = Some (File content)
                 \<and> lookup (nodes w2) ?t = None
             | Inl e \<Rightarrow>
                 write_file E S w requestedPath content
                   = (Inl (SysError e), unlinkQuiet w1 ?t)
                 \<and> (case faults w (Unlink ?t) of
                      Some e' \<Rightarrow> unlinkQuiet w1 ?t = w1
                    | None \<Rightarrow> lookup (nodes (unlinkQuiet w1 ?t)) ?t = None)
                 \<and> lookup (nodes (unlinkQuiet w1 ?t)) validPath = Some old)"
  proof (cases "faults w (WriteFile ?t)")
    case (Some e)
    with wf have w1: "writeFile w ?t content = (Some e, w)" by simp
    have uq: "unlinkQuiet w ?t = w"
      using dct fresh by (rule unlinkQuiet_missing)
    have "write_file E S w requestedPath content = (Inl (SysError e), unlinkQuiet w ?t)"
      using vp wx w1 by (simp add: write_file_def Let_def)
    with w1 uq Some old show ?thesis by simp
  next
    case None
    show ?thesis
    proof (cases "faults w (WriteData ?t)")
      case (Some e)
      let ?w1 = "w\<lparr>nodes := AList.update ?t (File (take (shortWrite w) content)) (nodes w)\<rparr>"
      from None Some wf have w1: "writeFile w ?t content = (Some e, ?w1)" by simp
      have "write_file E S w requestedPath content = (Inl (SysError e), unlinkQuiet ?w1 ?t)"
        using vp wx w1 by (simp add: write_file_def Let_def)
      moreover note stored [of "take (shortWrite w) content"]
        cleanup [of ?w1 "take (shortWrite w) content"]
      ultimately show ?thesis using w1 None by simp
    next
      case nodata: None
      let ?w1 = "w\<lparr>nodes := AList.update ?t (File content) (nodes w)\<rparr>"
      from None nodata wf have w1: "writeFile w ?t content = (None, ?w1)" by simp
      from stored [of content] have
        l1: "lookup (nodes ?w1) validPath = Some old" and
        l2: "lookup (nodes ?w1) ?t = Some (File content)" and
        d1: "dirChain (nodes ?w1) (butlast validPath)" and
        d1t: "dirChain (nodes ?w1) (butlast ?t)"
        by simp_all
      have rn: "rename ?w1 ?t validPath =
         (case faults ?w1 (Rename ?t validPath) of
            Some e \<Rightarrow> Inl e
          | None \<Rightarrow>
              if lookup (nodes ?w1) validPath = Some Dir then Inl EISDIR
              else Inr (?w1\<lparr>nodes := AList.update validPath (File content)
                                        (AList.delete ?t (nodes ?w1))\<rparr>))"
        using d1t d1 l2 tne by (rule rename_file)
      have "case rename ?w1 ?t validPath of
              Inr w2 \<Rightarrow>
                write_file E S w requestedPath content
                  = (Inr (''Successfully wrote to '' @ requestedPath), w2)
                \<and> lookup (nodes w2) validPath = Some (File content)
                \<and> lookup (nodes w2) ?t = None
            | Inl e \<Rightarrow>
                write_file E S w requestedPath content
                  = (Inl (SysError e), unlinkQuiet ?w1 ?t)
                \<and> (case faults w (Unlink ?t) of
                     Some e' \<Rightarrow> unlinkQuiet ?w1 ?t = ?w1
                   | None \<Rightarrow> lookup (nodes (unlinkQuiet ?w1 ?t)) ?t = None)
                \<and> lookup (nodes (unlinkQuiet ?w1 ?t)) validPath = Some old"
      proof (cases "rename ?w1 ?t validPath")
        case (Inl e)
        have "write_file E S w requestedPath content = (Inl (SysError e), unlinkQuiet ?w1 ?t)"
          using Inl vp wx w1 by (simp add: write_file_def Let_def)
        with cleanup [of ?w1 content] Inl show ?thesis by simp
      next
        case (Inr w2)
        with rn have w2: "w2 = ?w1\<lparr>nodes := AList.update validPath (File content)
                                        (AList.delete ?t (nodes ?w1))\<rparr>"
          and notdir: "lookup (nodes ?w1) validPath \<noteq> Some Dir"
          by (auto split: option.splits if_splits)
        from notdir have "validPath \<noteq> []" by (auto simp: lookup_def)
        with w2 tne tn have "lookup (nodes w2) validPath = Some (File content)"
          "lookup (nodes w2) ?t = None"
          by (simp_all add: lookup_def update_conv' delete_conv')
        with Inr vp wx w1 show ?thesis
          by (simp add: write_file_def Let_def)
      qed
      with w1 l1 l2 show ?thesis by simp
    qed
  qed
  have bn: "basename ?t = basename validPath @ ''.'' @ randomHex E @ ''.tmp''"
    by (simp add: basename_def tempPathOf_def Let_def)
  have dn: "dirname ?t = dirname validPath"
    using tb by (simp add: dirname_def)
  show ?thesis
    by (intro conjI exI [of _ old]) (rule dn bn old main)+
qed

theorem write_file_existing_witness:
  "realpath exampleWorld (path_resolve exampleEnv (expandHome exampleEnv ''/ws/a.txt''))
     = Inr [''ws'', ''a.txt'']
   \<and> faults exampleWorld (WriteFileX [''ws'', ''a.txt'']) = None
   \<and> lookup (nodes exampleWorld) (tempPathOf exampleEnv [''ws'', ''a.txt'']) = None
   \<and> dirname (tempPathOf exampleEnv [''ws'', ''a.txt'']) = dirname [''ws'', ''a.txt'']
   \<and> basename (tempPathOf exampleEnv [''ws'', ''a.txt''])
       = basename [''ws'', ''a.txt''] @ ''.'' @ randomHex exampleEnv @ ''.tmp''
   \<and> fst (write_file exampleEnv exampleServer exampleWorld ''/ws/a.txt'' ''new'')
       = Inr ''Successfully wrote to /ws/a.txt''
   \<and> lookup (nodes (snd (write_file exampleEnv exampleServer exampleWorld ''/ws/a.txt'' ''new'')))
       [''ws'', ''a.txt''] = Some (File ''new'')
   \<and> lookup (nodes (snd (write_file exampleEnv exampleServer exampleWorld ''/ws/a.txt'' ''new'')))
       (tempPathOf exampleEnv [''ws'', ''a.txt'']) = None
   \<and> realpath fullDiskWorld (path_resolve exampleEnv (expandHome exampleEnv ''/ws/a.txt''))
       = Inr [''ws'', ''a.txt'']
   \<and> faults fullDiskWorld (WriteFileX [''ws'', ''a.txt'']) = None
   \<and> lookup (nodes fullDiskWorld) (tempPathOf exampleEnv [''ws'', ''a.txt'']) = None
   \<and> fst (writeFile fullDiskWorld (tempPathOf exampleEnv [''ws'', ''a.txt'']) ''new'')
       = Some ENOSPC
   \<and> lookup (nodes (snd (writeFile fullDiskWorld (tempPathOf exampleEnv [''ws'', ''a.txt''])
                            ''new'')))
       (tempPathOf exampleEnv [''ws'', ''a.txt'']) = Some (File ''n'')
   \<and> fst (write_file exampleEnv exampleServer fullDiskWorld ''/ws/a.txt'' ''new'')
       = Inl (SysError ENOSPC)
   \<and> lookup (nodes (snd (write_file exampleEnv exampleServer fullDiskWorld ''/ws/a.txt'' ''new'')))
       (tempPathOf exampleEnv [''ws'', ''a.txt'']) = None
   \<and> lookup (nodes (snd (write_file exampleEnv exampleServer fullDiskWorld ''/ws/a.txt'' ''new'')))
       [''ws'', ''a.txt''] = Some (File ''foo\<newline>bar\<newline>'')
   \<and> realpath exampleWorld (path_resolve exampleEnv (expandHome exampleEnv ''/ws/sub''))
       = Inr [''ws'', ''sub'']
   \<and> lookup (nodes exampleWorld) (tempPathOf exampleEnv [''ws'', ''sub'']) = None
   \<and> fst (write_file exampleEnv exampleServer exampleWorld ''/ws/sub'' ''new'')
       = Inl (SysError EISDIR)
   \<and> lookup (nodes (snd (write_file exampleEnv exampleServer exampleWorld ''/ws/sub'' ''new'')))
       (tempPathOf exampleEnv [''ws'', ''sub'']) = None
   \<and> lookup (nodes (snd (write_file exampleEnv exampleServer exampleWorld ''/ws/sub'' ''new'')))
       [''ws'', ''sub''] = Some Dir"
proof -
  let ?v = "[''ws'', ''a.txt'']"
  let ?t = "tempPathOf exampleEnv ?v"
  let ?d = "[''ws'', ''sub'']"
  let ?u = "tempPathOf exampleEnv ?d"
  have h1: "realpath exampleWorld (path_resolve exampleEnv (expandHome exampleEnv ''/ws/a.txt''))
     = Inr ?v"
    by code_simp
  have h2: "faults exampleWorld (WriteFileX ?v) = None"
    by code_simp
  have h3: "lookup (nodes exampleWorld) ?t = None"
    by code_simp
  have g1: "realpath fullDiskWorld (path_resolve exampleEnv (expandHome exampleEnv ''/ws/a.txt''))
     = Inr ?v"
    by code_simp
  have g2: "faults fullDiskWorld (WriteFileX ?v) = None"
    by code_simp
  have g3: "lookup (nodes fullDiskWorld) ?t = None"
    by code_simp
  have d1: "realpath exampleWorld (path_resolve exampleEnv (expandHome exampleEnv ''/ws/sub''))
     = Inr ?d"
    by code_simp
  have d2: "faults exampleWorld (WriteFileX ?d) = None"
    by code_simp
  have d3: "lookup (nodes exampleWorld) ?u = None"
    by code_simp
  have first: "dirname ?t = dirname ?v
      \<and> basename ?t = basename ?v @ ''.'' @ randomHex exampleEnv @ ''.tmp''
      \<and> fst (write_file exampleEnv exampleServer exampleWorld ''/ws/a.txt'' ''new'')
          = Inr ''Successfully wrote to /ws/a.txt''
      \<and> lookup (nodes (snd (write_file exampleEnv exampleServer exampleWorld ''/ws/a.txt'' ''new'')))
          ?v = Some (File ''new'')
      \<and> lookup (nodes (snd (write_file exampleEnv exampleServer exampleWorld ''/ws/a.txt'' ''new'')))
          ?t = None"
  proof -
    have k1: "fst (writeFile exampleWorld ?t ''new'') = None"
      by code_simp
    have k2: "\<not> isl (rename (snd (writeFile exampleWorld ?t ''new'')) ?t ?v)"
      by code_simp
    from k1 obtain w1 where wf: "writeFile exampleWorld ?t ''new'' = (None, w1)"
      by (cases "writeFile exampleWorld ?t ''new''") auto
    with k2 obtain w2 where rn: "rename w1 ?t ?v = Inr w2"
      by (cases "rename w1 ?t ?v") auto
    from write_file_existing [OF h1 h2 h3, where S = exampleServer and content = "''new''"]
      wf rn
    show ?thesis by auto
  qed
  have second: "fst (writeFile fullDiskWorld ?t ''new'') = Some ENOSPC
      \<and> lookup (nodes (snd (writeFile fullDiskWorld ?t ''new''))) ?t = Some (File ''n'')
      \<and> fst (write_file exampleEnv exampleServer fullDiskWorld ''/ws/a.txt'' ''new'')
          = Inl (SysError ENOSPC)
      \<and> lookup (nodes (snd (write_file exampleEnv exampleServer fullDiskWorld ''/ws/a.txt'' ''new'')))
          ?t = None
      \<and> lookup (nodes (snd (write_file exampleEnv exampleServer fullDiskWorld ''/ws/a.txt'' ''new'')))
          ?v = Some (File ''foo\<newline>bar\<newline>'')"
  proof -
    have k1: "fst (writeFile fullDiskWorld ?t ''new'') = Some ENOSPC"
      by code_simp
    have k2: "faults fullDiskWorld (WriteFile ?t) = None"
      by code_simp
    have k3: "faults fullDiskWorld (Unlink ?t) = None"
      by code_simp
    have k4: "lookup (nodes fullDiskWorld) ?v = Some (File ''foo\<newline>bar\<newline>'')"
      by code_simp
    have k5: "take (shortWrite fullDiskWorld) ''new'' = ''n''"
      by (simp add: fullDiskWorld_def)
    from k1 obtain w1 where wf: "writeFile fullDiskWorld ?t ''new'' = (Some ENOSPC, w1)"
      by (cases "writeFile fullDiskWorld ?t ''new''") auto
    from write_file_existing [OF g1 g2 g3, where S = exampleServer and content = "''new''"]
      wf k2 k3 k4 k5
    show ?thesis by auto
  qed
  have third: "fst (write_file exampleEnv exampleServer exampleWorld ''/ws/sub'' ''new'')
          = Inl (SysError EISDIR)
      \<and> lookup (nodes (snd (write_file exampleEnv exampleServer exampleWorld ''/ws/sub'' ''new'')))
          ?u = None
      \<and> lookup (nodes (snd (write_file exampleEnv exampleServer exampleWorld ''/ws/sub'' ''new'')))
          ?d = Some Dir"
  proof -
    have k1: "fst (writeFile exampleWorld ?u ''new'') = None"
      by code_simp
    have k2: "case rename (snd (writeFile exampleWorld ?u ''new'')) ?u ?d of
                Inl e \<Rightarrow> e = EISDIR
              | Inr w2 \<Rightarrow> False"
      by code_simp
    have k3: "faults exampleWorld (Unlink ?u) = None"
      by code_simp
    have k4: "lookup (nodes exampleWorld) ?d = Some Dir"
      by code_simp
    from k1 obtain w1 where wf: "writeFile exampleWorld ?u ''new'' = (None, w1)"
      by (cases "writeFile exampleWorld ?u ''new''") auto
    with k2 have rn: "rename w1 ?u ?d = Inl EISDIR"
      by (cases "rename w1 ?u ?d") auto
    from write_file_existing [OF d1 d2 d3, where S = exampleServer and content = "''new''"]
      wf rn k3 k4
    show ?thesis by auto
  qed
  from h1 h2 h3 g1 g2 g3 d1 d3 first second third show ?thesis by blast
qed

text \<open>
  C10. \<^verbatim>\<open>move_file\<close> does not check whether the destination exists: when source and
  destination are existing regular files and the rename itself is not refused, the operation
  reports success, the destination holds the content of the source, and the source name is
  gone (unless both are the same file).
\<close>

theorem move_file_overwrites:
  assumes "realpath w (path_resolve E (expandHome E source)) = Inr validSourcePath"
    and "lookup (nodes w) validSourcePath = Some (File sourceContent)"
    and "realpath w (path_resolve E (expandHome E destination)) = Inr validDestPath"
    and "lookup (nodes w) validDestPath = Some (File destContent)"
    and "faults w (Rename validSourcePath validDestPath) = None"
  shows "\<exists>w'. move_file E S w source destination
             = (Inr (''Successfully moved '' @ source @ '' to '' @ destination), w')
           \<and> lookup (nodes w') validDestPath = Some (File sourceContent)
           \<and> (validSourcePath \<noteq> validDestPath \<longrightarrow> lookup (nodes w') validSourcePath = None)"
proof -
  from realpath_canonical [OF assms(1)] realpath_canonical [OF assms(3)]
  have da: "dirChain (nodes w) (butlast validSourcePath)"
    and db: "dirChain (nodes w) (butlast validDestPath)"
    and la: "locate (nodes w) validSourcePath = Inr validSourcePath"
    and lb: "locate (nodes w) validDestPath = Inr validDestPath"
    by simp_all
  have va: "validatePath E w source = Inr validSourcePath"
    and vb: "validatePath E w destination = Inr validDestPath"
    using assms(1,3) by (simp_all add: validatePath_realpath)
  from assms(2,4) have ne: "validSourcePath \<noteq> []" "validDestPath \<noteq> []"
    by (auto simp: lookup_def)
  show ?thesis
  proof (cases "validSourcePath = validDestPath")
    case True
    with assms(2,5) la have "rename w validSourcePath validDestPath = Inr w"
      by (simp add: rename_def)
    with va vb True assms(2) show ?thesis
      by (simp add: move_file_def)
  next
    case False
    let ?w' = "w\<lparr>nodes := AList.update validDestPath (File sourceContent)
                            (AList.delete validSourcePath (nodes w))\<rparr>"
    from rename_file [OF da db assms(2) False] assms(4,5)
    have "rename w validSourcePath validDestPath = Inr ?w'" by simp
    moreover have "lookup (nodes ?w') validDestPath = Some (File sourceContent)"
      "lookup (nodes ?w') validSourcePath = None"
      using ne False by (simp_all add: lookup_def update_conv' delete_conv')
    ultimately show ?thesis
      using va vb by (simp add: move_file_def)
  qed
qed

theorem move_file_overwrites_witness:
  "realpath exampleWorld (path_resolve exampleEnv (expandHome exampleEnv ''/ws/a.txt''))
     = Inr [''ws'', ''a.txt'']
   \<and> lookup (nodes exampleWorld) [''ws'', ''a.txt''] = Some (File ''foo\<newline>bar\<newline>'')
   \<and> realpath exampleWorld (path_resolve exampleEnv (expandHome exampleEnv ''/ws/link/passwd''))
     = Inr [''etc'', ''passwd'']
   \<and> lookup (nodes exampleWorld) [''etc'', ''passwd''] = Some (File ''root:x:0:0'')
   \<and> faults exampleWorld (Rename [''ws'', ''a.txt''] [''etc'', ''passwd'']) = None
   \<and> (\<exists>w'. move_file exampleEnv exampleServer exampleWorld ''/ws/a.txt'' ''/ws/link/passwd''
             = (Inr (''Successfully moved '' @ ''/ws/a.txt'' @ '' to '' @ ''/ws/link/passwd''), w')
           \<and> lookup (nodes w') [''etc'', ''passwd''] = Some (File ''foo\<newline>bar\<newline>'')
           \<and> ([''ws'', ''a.txt''] \<noteq> [''etc'', ''passwd'']
                \<longrightarrow> lookup (nodes w') [''ws'', ''a.txt''] = None))"
proof -
  have h1: "realpath exampleWorld (path_resolve exampleEnv (expandHome exampleEnv ''/ws/a.txt''))
     = Inr [''ws'', ''a.txt'']"
    by code_simp
  have h2: "lookup (nodes exampleWorld) [''ws'', ''a.txt''] = Some (File ''foo\<newline>bar\<newline>'')"
    by code_simp
  have h3: "realpath exampleWorld (path_resolve exampleEnv (expandHome exampleEnv ''/ws/link/passwd''))
     = Inr [''etc'', ''passwd'']"
    by code_simp
  have h4: "lookup (nodes exampleWorld) [''etc'', ''passwd''] = Some (File ''root:x:0:0'')"
    by code_simp
  have h5: "faults exampleWorld (Rename [''ws'', ''a.txt''] [''etc'', ''passwd'']) = None"
    by code_simp
  from move_file_overwrites [OF h1 h2 h3 h4 h5, where S = exampleServer] h1 h2 h3 h4 h5
  show ?thesis by blast
qed

section \<open>All or nothing\<close>

lemma matchesFuzzily_iff:
  "matchesFuzzily content e \<longleftrightarrow>
     (\<exists>i. i + length (oldLinesOf e) \<le> length (split LF content)
          \<and> isMatch (oldLinesOf e) (split LF content) i)"
  by (auto simp: matchesFuzzily_def list_ex_iff simp del: upt_Suc)

text \<open>
  C2. Let the file be readable. If some edit matches neither exactly nor fuzzily the content
  that the edits before it produce, \<^verbatim>\<open>applyFileEdits\<close> fails with an error that carries
  the search text of that edit, and the file system is as it was before the call, whatever
  \<^verbatim>\<open>dryRun\<close> is. And the file system changes only when \<^verbatim>\<open>dryRun\<close> is false and all edits
  have been applied.
\<close>

theorem applyFileEdits_all_or_nothing:
  assumes "readFile w filePath = Inr raw"
  shows "(\<forall>k c. k < length edits
            \<and> applyEdits (normalizeLineEndings raw) (take k edits) = Inr c
            \<and> \<not> matchesExactly c (edits ! k) \<and> \<not> matchesFuzzily c (edits ! k)
          \<longrightarrow> applyFileEdits E w filePath edits dryRun
                = (Inl (NoExactMatch (oldText (edits ! k))), w))
       \<and> (snd (applyFileEdits E w filePath edits dryRun) \<noteq> w
          \<longrightarrow> \<not> dryRun \<and> (\<exists>final. applyEdits (normalizeLineEndings raw) edits = Inr final))"
proof (intro conjI allI impI)
  fix k c
  assume a: "k < length edits
            \<and> applyEdits (normalizeLineEndings raw) (take k edits) = Inr c
            \<and> \<not> matchesExactly c (edits ! k) \<and> \<not> matchesFuzzily c (edits ! k)"
  then have "applyEdit c (edits ! k) = Inl (NoExactMatch (oldText (edits ! k)))"
    by (intro applyEdit_fails) (auto simp: matchesExactly_def matchesFuzzily_iff)
  with a have "applyEdits (normalizeLineEndings raw) edits
      = Inl (NoExactMatch (oldText (edits ! k)))"
    by (intro applyEdits_fails_at [of k _ _ c]) simp_all
  with assms show "applyFileEdits E w filePath edits dryRun
                = (Inl (NoExactMatch (oldText (edits ! k))), w)"
    by (simp add: applyFileEdits_def)
next
  assume "snd (applyFileEdits E w filePath edits dryRun) \<noteq> w"
  with assms show "\<not> dryRun"
    by (auto simp: applyFileEdits_def Let_def split: sum.splits if_splits prod.splits option.splits)
next
  assume "snd (applyFileEdits E w filePath edits dryRun) \<noteq> w"
  with assms show "\<exists>final. applyEdits (normalizeLineEndings raw) edits = Inr final"
    by (auto simp: applyFileEdits_def Let_def split: sum.splits if_splits prod.splits option.splits)
qed

theorem applyFileEdits_all_or_nothing_witness:
  "readFile exampleWorld [''ws'', ''a.txt''] = Inr ''foo\<newline>bar\<newline>''
   \<and> 1 < length [\<lparr>oldText = ''foo'', newText = ''baz''\<rparr>, \<lparr>oldText = ''qux'', newText = ''x''\<rparr>]
   \<and> applyEdits (normalizeLineEndings ''foo\<newline>bar\<newline>'')
         (take 1 [\<lparr>oldText = ''foo'', newText = ''baz''\<rparr>, \<lparr>oldText = ''qux'', newText = ''x''\<rparr>])
       = Inr ''baz\<newline>bar\<newline>''
   \<and> \<not> matchesExactly ''baz\<newline>bar\<newline>''
         ([\<lparr>oldText = ''foo'', newText = ''baz''\<rparr>, \<lparr>oldText = ''qux'', newText = ''x''\<rparr>] ! 1)
   \<and> \<not> matchesFuzzily ''baz\<newline>bar\<newline>''
         ([\<lparr>oldText = ''foo'', newText = ''baz''\<rparr>, \<lparr>oldText = ''qux'', newText = ''x''\<rparr>] ! 1)
   \<and> applyFileEdits exampleEnv exampleWorld [''ws'', ''a.txt'']
         [\<lparr>oldText = ''foo'', newText = ''baz''\<rparr>, \<lparr>oldText = ''qux'', newText = ''x''\<rparr>] False
       = (Inl (NoExactMatch ''qux''), exampleWorld)
   \<and> snd (applyFileEdits exampleEnv exampleWorld [''ws'', ''a.txt'']
         [\<lparr>oldText = ''foo'', newText = ''baz''\<rparr>] False) \<noteq> exampleWorld
   \<and> (\<exists>final. applyEdits (normalizeLineEndings ''foo\<newline>bar\<newline>'')
         [\<lparr>oldText = ''foo'', newText = ''baz''\<rparr>] = Inr final)"
proof -
  let ?es = "[\<lparr>oldText = ''foo'', newText = ''baz''\<rparr>, \<lparr>oldText = ''qux'', newText = ''x''\<rparr>]"
  have h: "readFile exampleWorld [''ws'', ''a.txt''] = Inr ''foo\<newline>bar\<newline>''"
    by code_simp
  have a1: "1 < length ?es" by simp
  have a2: "applyEdits (normalizeLineEndings ''foo\<newline>bar\<newline>'') (take 1 ?es)
       = Inr ''baz\<newline>bar\<newline>''"
    by code_simp
  have a3: "\<not> matchesExactly ''baz\<newline>bar\<newline>'' (?es ! 1)"
    by code_simp
  have a4: "\<not> matchesFuzzily ''baz\<newline>bar\<newline>'' (?es ! 1)"
    by code_simp
  have "nodes (snd (applyFileEdits exampleEnv exampleWorld [''ws'', ''a.txt'']
         [\<lparr>oldText = ''foo'', newText = ''baz''\<rparr>] False)) \<noteq> nodes exampleWorld"
    by code_simp
  then have b1: "snd (applyFileEdits exampleEnv exampleWorld [''ws'', ''a.txt'']
         [\<lparr>oldText = ''foo'', newText = ''baz''\<rparr>] False) \<noteq> exampleWorld"
    by auto
  have o: "oldText (?es ! 1) = ''qux''" by simp
  from applyFileEdits_all_or_nothing
         [OF h, where E = exampleEnv and edits = ?es and dryRun = False] a1 a2 a3 a4
  have r1: "applyFileEdits exampleEnv exampleWorld [''ws'', ''a.txt''] ?es False
       = (Inl (NoExactMatch (oldText (?es ! 1))), exampleWorld)"
    by blast
  from applyFileEdits_all_or_nothing
         [OF h, where E = exampleEnv and edits = "[\<lparr>oldText = ''foo'', newText = ''baz''\<rparr>]"
            and dryRun = False] b1
  have r2: "\<exists>final. applyEdits (normalizeLineEndings ''foo\<newline>bar\<newline>'')
         [\<lparr>oldText = ''foo'', newText = ''baz''\<rparr>] = Inr final"
    by blast
  from h a1 a2 a3 a4 r1 [unfolded o] b1 r2 show ?thesis by blast
qed

section \<open>The last lines of a file that ends in a line feed\<close>

text \<open>
  C4. The file \<^verbatim>\<open>/ws/a.txt\<close> holds the two lines \<open>foo\<close> and \<open>bar\<close>, each ended by a
  line feed. Its last line is \<open>bar\<close>, and \<^verbatim>\<open>tailFile\<close> with 1 returns the empty text; its
  last two lines are \<open>foo\<close> and \<open>bar\<close>, and \<^verbatim>\<open>tailFile\<close> with 2 returns \<open>bar\<close> and a
  line feed. \<^verbatim>\<open>headFile\<close> returns the first line and the first two lines. The two
  functions do not agree on what a line is: \<^verbatim>\<open>tailFile\<close> takes the empty text after the
  last line feed for a third line, and \<^verbatim>\<open>headFile\<close> with 3 returns two lines.
\<close>

theorem tailFile_trailing_newline:
  "readFile exampleWorld [''ws'', ''a.txt''] = Inr ''foo\<newline>bar\<newline>''
   \<and> fileLines ''foo\<newline>bar\<newline>'' = [''foo'', ''bar'']
   \<and> join LF (lastLines 1 (fileLines ''foo\<newline>bar\<newline>'')) = ''bar''
   \<and> tailFile exampleWorld [''ws'', ''a.txt''] 1 = Inr []
   \<and> join LF (lastLines 2 (fileLines ''foo\<newline>bar\<newline>'')) = ''foo\<newline>bar''
   \<and> tailFile exampleWorld [''ws'', ''a.txt''] 2 = Inr ''bar\<newline>''
   \<and> headFile exampleWorld [''ws'', ''a.txt''] 1 = Inr ''foo''
   \<and> headFile exampleWorld [''ws'', ''a.txt''] 2 = Inr ''foo\<newline>bar''
   \<and> split LF ''foo\<newline>bar\<newline>'' = [''foo'', ''bar'', []]
   \<and> tailFile exampleWorld [''ws'', ''a.txt''] 3 = Inr ''foo\<newline>bar\<newline>''
   \<and> headFile exampleWorld [''ws'', ''a.txt''] 3 = Inr ''foo\<newline>bar''"
  by code_simp

section \<open>Properties of the search\<close>

lemma children_distinct: "distinct (map fst (children ns d))"
proof -
  let ?xs = "filter (\<lambda>(q, n). q \<noteq> [] \<and> butlast q = d \<and> plainSegment (last q))
               (AList.clearjunk ns)"
  let ?ks = "map fst ?xs"
  have d: "distinct ?ks"
    by (simp add: distinct_map_filter distinct_clearjunk)
  have m: "map fst (children ns d) = map last ?ks"
    by (simp add: children_def case_prod_unfold comp_def)
  have i: "inj_on last (set ?ks)"
  proof (rule inj_onI)
    fix a b
    assume "a \<in> set ?ks" "b \<in> set ?ks" "last a = last b"
    then have "a \<noteq> []" "b \<noteq> []" "butlast a = d" "butlast b = d" "last a = last b"
      by auto
    then show "a = b" by (metis append_butlast_last_id)
  qed
  from d i have "distinct (map last ?ks)"
    by (simp only: distinct_map)
  with m show ?thesis by (simp only:)
qed

lemma readdir_entries:
  assumes "readdir w dir = Inr entries"
  shows "distinct (map fst entries)"
    and "(name, kind) \<in> set entries \<Longrightarrow> path_join dir' name = dir' @ [name]"
    and "entryKind w dir name = Some kind \<longleftrightarrow> (name, kind) \<in> set entries"
proof -
  from assms obtain d where e: "entries = children (nodes w) d"
    by (auto simp: readdir_def split: option.splits sum.splits node.splits)
  then show d: "distinct (map fst entries)" by (simp add: children_distinct)
  show "path_join dir' name = dir' @ [name]" if "(name, kind) \<in> set entries"
    using that e by (auto simp: path_join_def plainSegment_def dest!: children_entry)
  from d assms show "entryKind w dir name = Some kind \<longleftrightarrow> (name, kind) \<in> set entries"
    by (simp add: entryKind_def)
qed

lemma visited_unreadable:
  assumes "readdir w dir = Inl e"
  shows "\<not> visited E w rootPath excludePatterns dir names"
proof -
  from assms have "entryKind w dir name = None" for name
    by (simp add: entryKind_def)
  then show ?thesis
    by (cases "(E, w, rootPath, excludePatterns, dir, names)" rule: visited.cases)
       (simp_all add: admitted_def)
qed

lemma search_error:
  "search E w rootPath pattern excludePatterns dir = Inl e \<Longrightarrow> readdir w dir = Inl e"
  by (subst (asm) search.simps) (simp split: sum.splits)

lemma visit_member:
  "p \<in> set (case validateAbsolute w fullPath of
               Inl err \<Rightarrow> []
             | Inr validPath \<Rightarrow>
                 if excluded then []
                 else (if matches then [fullPath] else []) @ (if isDir then sub else []))
   \<longleftrightarrow> \<not> isl (validateAbsolute w fullPath) \<and> \<not> excluded
       \<and> (matches \<and> p = fullPath \<or> isDir \<and> p \<in> set sub)"
  by (cases "validateAbsolute w fullPath") auto

lemma search_visits:
  assumes "search E w rootPath pattern excludePatterns currentPath = Inr results"
  shows "p \<in> set results \<longleftrightarrow>
     (\<exists>names. p = currentPath @ names
        \<and> visited E w rootPath excludePatterns currentPath names
        \<and> nameMatches (last names) pattern)"
  using assms
proof (induction E w rootPath pattern excludePatterns currentPath arbitrary: results p
       rule: search.induct)
  case (1 E w rootPath pattern excludePatterns currentPath)
  let ?sub = "\<lambda>fullPath. case search E w rootPath pattern excludePatterns fullPath of
                          Inl e \<Rightarrow> [] | Inr found \<Rightarrow> found"
  let ?visit = "\<lambda>(name, kind).
       let fullPath = path_join currentPath name
       in case validateAbsolute w fullPath of
            Inl err \<Rightarrow> []
          | Inr validPath \<Rightarrow>
              if shouldExclude E rootPath excludePatterns fullPath then []
              else (if nameMatches name pattern then [fullPath] else [])
                   @ (if kind = KDir then ?sub fullPath else [])"
  from "1.prems" obtain entries where rd: "readdir w currentPath = Inr entries"
    and res: "results = concat (map ?visit entries)"
    by (subst (asm) search.simps) (auto split: sum.splits)
  note ent = readdir_entries [OF rd]
  have visit: "p \<in> set (?visit (name, kind)) \<longleftrightarrow>
      \<not> isl (validateAbsolute w (currentPath @ [name]))
      \<and> \<not> shouldExclude E rootPath excludePatterns (currentPath @ [name])
      \<and> (nameMatches name pattern \<and> p = currentPath @ [name]
         \<or> kind = KDir \<and> p \<in> set (?sub (currentPath @ [name])))"
    if "(name, kind) \<in> set entries" for name kind p
    using ent(2) [OF that, of currentPath] by (simp only: prod.case Let_def visit_member)
  have sub: "p \<in> set (?sub (currentPath @ [name])) \<longleftrightarrow>
      (\<exists>names. p = (currentPath @ [name]) @ names
         \<and> visited E w rootPath excludePatterns (currentPath @ [name]) names
         \<and> nameMatches (last names) pattern)"
    if "(name, KDir) \<in> set entries"
      and "\<not> isl (validateAbsolute w (currentPath @ [name]))"
      and "\<not> shouldExclude E rootPath excludePatterns (currentPath @ [name])"
    for name p
  proof (cases "search E w rootPath pattern excludePatterns (currentPath @ [name])")
    case (Inl e)
    then have "readdir w (currentPath @ [name]) = Inl e" by (rule search_error)
    then have "\<not> visited E w rootPath excludePatterns (currentPath @ [name]) names" for names
      by (rule visited_unreadable)
    with Inl show ?thesis by simp
  next
    case (Inr found)
    from that(2) obtain validPath where
      v: "validateAbsolute w (currentPath @ [name]) = Inr validPath"
      by (cases "validateAbsolute w (currentPath @ [name])") auto
    have pj: "path_join currentPath name = currentPath @ [name]"
      using ent(2) [OF that(1)] .
    from "1.IH" [OF rd that(1) refl, of "currentPath @ [name]" validPath found p] pj v that(3) Inr
    show ?thesis by simp
  qed
  show ?case
  proof
    assume "p \<in> set results"
    with res obtain name kind where e: "(name, kind) \<in> set entries"
      and pv: "p \<in> set (?visit (name, kind))"
      by auto
    from pv visit [OF e] have ok: "\<not> isl (validateAbsolute w (currentPath @ [name]))"
      "\<not> shouldExclude E rootPath excludePatterns (currentPath @ [name])"
      and alt: "nameMatches name pattern \<and> p = currentPath @ [name]
         \<or> kind = KDir \<and> p \<in> set (?sub (currentPath @ [name]))"
      by simp_all
    from e ent(3) have ek: "entryKind w currentPath name = Some kind" by simp
    with ok have adm: "admitted E w rootPath excludePatterns currentPath name"
      by (simp add: admitted_def)
    from alt show "\<exists>names. p = currentPath @ names
        \<and> visited E w rootPath excludePatterns currentPath names
        \<and> nameMatches (last names) pattern"
    proof
      assume "nameMatches name pattern \<and> p = currentPath @ [name]"
      with adm have "p = currentPath @ [name]
        \<and> visited E w rootPath excludePatterns currentPath [name]
        \<and> nameMatches (last [name]) pattern"
        by simp
      then show ?thesis by blast
    next
      assume a: "kind = KDir \<and> p \<in> set (?sub (currentPath @ [name]))"
      with e ok sub [of name p] obtain names where n: "p = (currentPath @ [name]) @ names"
        "visited E w rootPath excludePatterns (currentPath @ [name]) names"
        "nameMatches (last names) pattern"
        by auto
      from n(2) obtain n1 rest where names: "names = n1 # rest" by (cases names) auto
      with n adm ek a have "p = currentPath @ (name # names)
        \<and> visited E w rootPath excludePatterns currentPath (name # names)
        \<and> nameMatches (last (name # names)) pattern"
        by simp
      then show ?thesis by blast
    qed
  next
    assume "\<exists>names. p = currentPath @ names
        \<and> visited E w rootPath excludePatterns currentPath names
        \<and> nameMatches (last names) pattern"
    then obtain names where n: "p = currentPath @ names"
      "visited E w rootPath excludePatterns currentPath names"
      "nameMatches (last names) pattern"
      by blast
    from n(2) obtain name rest where names: "names = name # rest" by (cases names) auto
    from n(2) names have adm: "admitted E w rootPath excludePatterns currentPath name"
      by (cases rest) simp_all
    then obtain kind where ek: "entryKind w currentPath name = Some kind"
      and ok: "\<not> isl (validateAbsolute w (currentPath @ [name]))"
      "\<not> shouldExclude E rootPath excludePatterns (currentPath @ [name])"
      by (auto simp: admitted_def)
    from ek ent(3) have e: "(name, kind) \<in> set entries" by simp
    have "p \<in> set (?visit (name, kind))"
    proof (cases rest)
      case Nil
      with n names ok visit [OF e] show ?thesis by simp
    next
      case (Cons n2 rest')
      with n(2) names ek have k: "kind = KDir"
        and v: "visited E w rootPath excludePatterns (currentPath @ [name]) rest"
        by simp_all
      from n(1,3) names Cons have "p = (currentPath @ [name]) @ rest"
        "nameMatches (last rest) pattern"
        by simp_all
      with v e k ok sub [of name p] have "p \<in> set (?sub (currentPath @ [name]))"
        by blast
      with k ok visit [OF e] show ?thesis by simp
    qed
    with e res show "p \<in> set results" by auto
  qed
qed

lemma visited_not_excluded:
  "visited E w rootPath excludePatterns dir names \<Longrightarrow> prefix ds names \<Longrightarrow> ds \<noteq> []
   \<Longrightarrow> \<not> shouldExclude E rootPath excludePatterns (dir @ ds)"
proof (induction names arbitrary: dir ds)
  case Nil
  then show ?case by simp
next
  case (Cons name rest)
  from Cons.prems(2,3) obtain ds' where ds: "ds = name # ds'" "prefix ds' rest"
    by (cases ds) auto
  from Cons.prems(1) have adm: "admitted E w rootPath excludePatterns dir name"
    by (cases rest) simp_all
  show ?case
  proof (cases "ds' = []")
    case True
    with adm ds show ?thesis by (simp add: admitted_def)
  next
    case False
    with ds(2) obtain n2 rest' where rest: "rest = n2 # rest'" by (cases rest) auto
    with Cons.prems(1) have "visited E w rootPath excludePatterns (dir @ [name]) rest"
      by simp
    from Cons.IH [OF this ds(2) False] ds(1) show ?thesis by simp
  qed
qed

text \<open>
  C6 (as the code has it). When the root of the search can be listed, \<^verbatim>\<open>searchFiles\<close>
  returns a path below the root if and only if the base name of the entry contains the
  pattern, both in lower case, and the search visits the entry: the entry and every directory
  between the root and it are listed by their directory, pass path validation and have a
  relative path that no exclusion pattern matches (a pattern without \<^verbatim>\<open>*\<close> is handed to
  \<^verbatim>\<open>minimatch\<close> between \<^verbatim>\<open>**/\<close> and \<^verbatim>\<open>/**\<close>, a pattern with \<^verbatim>\<open>*\<close> as it is), and the
  directories between are listed as directories. Whether those directories contain the
  pattern plays no part. No path at or below an excluded entry is returned.
\<close>

theorem searchFiles_results:
  assumes "searchFiles E w rootPath pattern excludePatterns = Inr results"
  shows "(p \<in> set results \<longleftrightarrow>
            (\<exists>names. p = rootPath @ names
               \<and> visited E w rootPath excludePatterns rootPath names
               \<and> nameMatches (last names) pattern))
         \<and> (ds \<noteq> [] \<and> shouldExclude E rootPath excludePatterns (rootPath @ ds)
              \<longrightarrow> \<not> list_ex (prefix (rootPath @ ds)) results)"
proof -
  from assms have s: "search E w rootPath pattern excludePatterns rootPath = Inr results"
    by (simp add: searchFiles_def)
  have iff: "q \<in> set results \<longleftrightarrow>
            (\<exists>names. q = rootPath @ names
               \<and> visited E w rootPath excludePatterns rootPath names
               \<and> nameMatches (last names) pattern)" for q
    using s by (rule search_visits)
  have "\<not> list_ex (prefix (rootPath @ ds)) results"
    if "ds \<noteq> []" "shouldExclude E rootPath excludePatterns (rootPath @ ds)"
  proof
    assume "list_ex (prefix (rootPath @ ds)) results"
    then obtain q where q: "q \<in> set results" "prefix (rootPath @ ds) q"
      by (auto simp: list_ex_iff)
    from q(1) iff obtain names where n: "q = rootPath @ names"
      "visited E w rootPath excludePatterns rootPath names"
      by blast
    from q(2) n(1) have "prefix ds names" by simp
    from visited_not_excluded [OF n(2) this that(1)] that(2) show False by simp
  qed
  with iff show ?thesis by blast
qed

theorem searchFiles_results_witness:
  "searchFiles exampleEnv exampleWorld [''ws''] ''foo'' [] = Inr [ [''ws'', ''sub'', ''Foo.md''] ]
   \<and> ([''ws'', ''sub'', ''Foo.md''] \<in> set [ [''ws'', ''sub'', ''Foo.md''] ] \<longleftrightarrow>
        (\<exists>names. [''ws'', ''sub'', ''Foo.md''] = [''ws''] @ names
           \<and> visited exampleEnv exampleWorld [''ws''] [] [''ws''] names
           \<and> nameMatches (last names) ''foo''))
   \<and> searchFiles exampleEnv exampleWorld [''ws''] ''a'' [''sub''] = Inr [ [''ws'', ''a.txt''] ]
   \<and> [''sub'', ''Foo.md''] \<noteq> []
   \<and> shouldExclude exampleEnv [''ws''] [''sub''] ([''ws''] @ [''sub'', ''Foo.md''])
   \<and> \<not> list_ex (prefix ([''ws''] @ [''sub'', ''Foo.md''])) [ [''ws'', ''a.txt''] ]
   \<and> visited exampleEnv exampleWorld [''ws''] [] [''ws''] [''sub'', ''Foo.md'']"
proof -
  have h1: "searchFiles exampleEnv exampleWorld [''ws''] ''foo'' []
      = Inr [ [''ws'', ''sub'', ''Foo.md''] ]"
    by code_simp
  have h2: "searchFiles exampleEnv exampleWorld [''ws''] ''a'' [''sub''] = Inr [ [''ws'', ''a.txt''] ]"
    by code_simp
  have h3: "[''sub'', ''Foo.md''] \<noteq> []" by simp
  have h4: "shouldExclude exampleEnv [''ws''] [''sub''] ([''ws''] @ [''sub'', ''Foo.md''])"
    by code_simp
  have h5: "visited exampleEnv exampleWorld [''ws''] [] [''ws''] [''sub'', ''Foo.md'']"
    by code_simp
  from searchFiles_results [OF h1, where p = "[''ws'', ''sub'', ''Foo.md'']"]
  have r1: "[''ws'', ''sub'', ''Foo.md''] \<in> set [ [''ws'', ''sub'', ''Foo.md''] ] \<longleftrightarrow>
        (\<exists>names. [''ws'', ''sub'', ''Foo.md''] = [''ws''] @ names
           \<and> visited exampleEnv exampleWorld [''ws''] [] [''ws''] names
           \<and> nameMatches (last names) ''foo'')"
    by blast
  from searchFiles_results [OF h2, where ds = "[''sub'', ''Foo.md'']"] h3 h4
  have r2: "\<not> list_ex (prefix ([''ws''] @ [''sub'', ''Foo.md''])) [ [''ws'', ''a.txt''] ]"
    by blast
  from h1 r1 h2 h3 h4 r2 h5 show ?thesis by blast
qed

text \<open>
  C6 (as the specification states it) fails: \<^verbatim>\<open>/ws/loop\<close> is a symbolic link to itself, its
  name contains the pattern and the exclusion list is empty, but its validation fails and the
  search leaves it out.
\<close>

theorem searchFiles_results_counterexample:
  "readdir exampleWorld [''ws'']
     = Inr [(''a.txt'', KFile), (''link'', KSymlink), (''loop'', KSymlink), (''sub'', KDir)]
   \<and> nameMatches ''loop'' ''LOOP''
   \<and> \<not> shouldExclude exampleEnv [''ws''] [] [''ws'', ''loop'']
   \<and> validateAbsolute exampleWorld [''ws'', ''loop''] = Inl (SysError ELOOP)
   \<and> searchFiles exampleEnv exampleWorld [''ws''] ''LOOP'' [] = Inr []"
  by code_simp

end
